theory Spec2Isabelle
  imports Main
begin

section \<open>JavaScript strings\<close>

text \<open>
  A JavaScript string is a sequence of UTF-16 code units. The server's regular expressions
  carry no \<open>u\<close> flag, so they work on code units; a code unit is modelled by its
  numeric value. \<open>utf16\<close> turns an ASCII literal of the source into its code units.
\<close>

type_synonym code_unit = nat
type_synonym jsstring = "code_unit list"

definition utf16 :: "string \<Rightarrow> jsstring" where
  "utf16 s = map of_char s"

definition white :: "code_unit \<Rightarrow> bool" where
  \<comment> \<open>The class \<open>\s\<close>, which is also what \<open>String.prototype.trim\<close> strips: TAB, LF,
      VT, FF, CR, SP, NBSP, U+1680, U+2000..U+200A, U+2028, U+2029, U+202F, U+205F,
      U+3000 and U+FEFF.\<close>
  "white c = (c = 9 \<or> c = 10 \<or> c = 11 \<or> c = 12 \<or> c = 13 \<or> c = 32 \<or> c = 160
      \<or> c = 5760 \<or> (8192 \<le> c \<and> c \<le> 8202) \<or> c = 8232 \<or> c = 8233 \<or> c = 8239
      \<or> c = 8287 \<or> c = 12288 \<or> c = 65279)"

definition word_char :: "code_unit \<Rightarrow> bool" where
  \<comment> \<open>The class \<open>\w\<close> that \<open>\b\<close> consults: digits, upper case, underscore, lower case.\<close>
  "word_char c = ((48 \<le> c \<and> c \<le> 57) \<or> (65 \<le> c \<and> c \<le> 90) \<or> c = 95
      \<or> (97 \<le> c \<and> c \<le> 122))"

definition canonicalize :: "code_unit \<Rightarrow> code_unit" where
  \<comment> \<open>Case folding of the \<open>i\<close> flag, on ASCII. Both patterns consist of ASCII letters,
      and the folding of a regular expression without the \<open>u\<close> flag never sends
      a code unit of 128 or more to one below 128, so nothing else can match them.\<close>
  "canonicalize c = (if 97 \<le> c \<and> c \<le> 122 then c - 32 else c)"

fun trimStart :: "jsstring \<Rightarrow> jsstring" where
  "trimStart [] = []"
| "trimStart (c # cs) = (if white c then trimStart cs else c # cs)"

definition trim :: "jsstring \<Rightarrow> jsstring" where
  "trim s = rev (trimStart (rev (trimStart s)))"

section \<open>Regular expressions\<close>

text \<open>
  The fragment of the regular expression language that the two patterns of the server use.
  A matcher state is the code unit just before the current position (\<open>None\<close> at the start
  of the input) and the rest of the input. \<open>rmatch\<close> lists every state a pattern can end
  in, in the order a backtracking matcher tries them; \<open>RegExp.prototype.test\<close> succeeds
  when some start position has a match.
\<close>

datatype regex =
    Eps
  | Chr code_unit
  | WhiteStar
  | WhitePlus
  | WordB
  | Start
  | Seq regex regex
  | Alt regex regex

type_synonym mstate = "code_unit option \<times> jsstring"

fun is_word_before :: "code_unit option \<Rightarrow> bool" where
  "is_word_before None = False"
| "is_word_before (Some c) = word_char c"

fun is_word_here :: "jsstring \<Rightarrow> bool" where
  "is_word_here [] = False"
| "is_word_here (c # cs) = word_char c"

fun white_star :: "code_unit option \<Rightarrow> jsstring \<Rightarrow> mstate list" where
  "white_star p [] = [(p, [])]"
| "white_star p (c # cs) = (if white c then white_star (Some c) cs else []) @ [(p, c # cs)]"

fun rmatch :: "regex \<Rightarrow> mstate \<Rightarrow> mstate list" where
  "rmatch Eps st = [st]"
| "rmatch (Chr a) (p, []) = []"
| "rmatch (Chr a) (p, c # cs) = (if canonicalize c = canonicalize a then [(Some c, cs)] else [])"
| "rmatch WhiteStar (p, cs) = white_star p cs"
| "rmatch WhitePlus (p, []) = []"
| "rmatch WhitePlus (p, c # cs) = (if white c then white_star (Some c) cs else [])"
| "rmatch WordB (p, cs) = (if is_word_before p \<noteq> is_word_here cs then [(p, cs)] else [])"
| "rmatch Start (p, cs) = (if p = None then [(p, cs)] else [])"
| "rmatch (Seq r1 r2) st = concat (map (rmatch r2) (rmatch r1 st))"
| "rmatch (Alt r1 r2) st = rmatch r1 st @ rmatch r2 st"

fun test_from :: "regex \<Rightarrow> code_unit option \<Rightarrow> jsstring \<Rightarrow> bool" where
  "test_from r p [] = (rmatch r (p, []) \<noteq> [])"
| "test_from r p (c # cs) = (rmatch r (p, c # cs) \<noteq> [] \<or> test_from r (Some c) cs)"

definition regex_test :: "regex \<Rightarrow> jsstring \<Rightarrow> bool" where
  "regex_test r s = test_from r None s"

fun lit :: "jsstring \<Rightarrow> regex" where
  "lit [] = Eps"
| "lit (a # as) = Seq (Chr a) (lit as)"

fun alts :: "regex list \<Rightarrow> regex" where
  "alts [] = Eps"
| "alts [r] = r"
| "alts (r # rs) = Alt r (alts rs)"

section \<open>SQL safety guards\<close>

definition banned :: regex where
  \<comment> \<open>\<^verbatim>\<open>/\b(INSERT|UPDATE|DELETE|MERGE|TRUNCATE|ALTER|DROP|CREATE|REINDEX|VACUUM|GRANT|REVOKE|COPY|ANALYZE|SET\s+ROLE|BEGIN|COMMIT|ROLLBACK)\b/i\<close>\<close>
  "banned =
     Seq WordB (Seq (alts
       [lit (utf16 ''INSERT''), lit (utf16 ''UPDATE''), lit (utf16 ''DELETE''),
        lit (utf16 ''MERGE''), lit (utf16 ''TRUNCATE''), lit (utf16 ''ALTER''),
        lit (utf16 ''DROP''), lit (utf16 ''CREATE''), lit (utf16 ''REINDEX''),
        lit (utf16 ''VACUUM''), lit (utf16 ''GRANT''), lit (utf16 ''REVOKE''),
        lit (utf16 ''COPY''), lit (utf16 ''ANALYZE''),
        Seq (lit (utf16 ''SET'')) (Seq WhitePlus (lit (utf16 ''ROLE''))),
        lit (utf16 ''BEGIN''), lit (utf16 ''COMMIT''), lit (utf16 ''ROLLBACK'')]) WordB)"

definition isMutatingSql :: "jsstring \<Rightarrow> bool" where
  "isMutatingSql sql = regex_test banned sql"

definition explain_pattern :: regex where
  \<comment> \<open>\<^verbatim>\<open>/^\s*EXPLAIN\b/i\<close>\<close>
  "explain_pattern = Seq Start (Seq WhiteStar (Seq (lit (utf16 ''EXPLAIN'')) WordB))"

definition isExplain :: "jsstring \<Rightarrow> bool" where
  "isExplain sql = regex_test explain_pattern sql"

definition safety_check :: "bool \<Rightarrow> jsstring \<Rightarrow> bool" where
  \<comment> \<open>The guard of \<open>sbsh_execute_sql\<close>; \<open>True\<close> when it throws the READ_ONLY error.\<close>
  "safety_check read_only sql =
     (if read_only \<and> \<not> isExplain sql then (if isMutatingSql sql then True else False)
      else False)"

section \<open>Errors, configuration and collaborators\<close>

fun decimal :: "nat \<Rightarrow> jsstring" where
  "decimal n = (if n < 10 then [48 + n] else decimal (n div 10) @ [48 + n mod 10])"

datatype error =
    FeatureDisabled jsstring
  | SqlRequired
  | TableRequired
  | JwtNotConfigured
  | ReadOnlyBlocked
  | DataAccess jsstring
  | PostgrestFailure nat jsstring

fun message :: "error \<Rightarrow> jsstring" where
  "message (FeatureDisabled f) = utf16 ''Feature \"'' @ f @ utf16 ''\" is disabled''"
| "message SqlRequired = utf16 ''SQL query is required''"
| "message TableRequired = utf16 ''Table name is required''"
| "message JwtNotConfigured = utf16 ''POSTGREST_JWT is not configured''"
| "message ReadOnlyBlocked =
     utf16 ''READ_ONLY mode: DML/DDL/DCL operations are blocked. Only SELECT and EXPLAIN are allowed.''"
| "message (DataAccess m) = m"
| "message (PostgrestFailure status body) =
     utf16 ''PostgREST error ('' @ decimal status @ utf16 ''): '' @ body"

record config =
  READ_ONLY :: bool
  FEATURES :: "jsstring set"
  POSTGREST_URL :: jsstring
  POSTGREST_JWT :: jsstring

record column_row =
  table_schema :: jsstring
  table_name :: jsstring
  column_name :: jsstring
  data_type :: jsstring
  is_nullable :: jsstring

record index_row =
  schemaname :: jsstring
  tablename :: jsstring
  indexname :: jsstring
  indexdef :: jsstring

record constraint_row =
  con_schema :: jsstring
  con_table :: jsstring
  conname :: jsstring
  contype :: jsstring

record policy_row =
  pol_schema :: jsstring
  pol_table :: jsstring
  policy_name :: jsstring
  pol_cmd :: jsstring

record 'r query_result =
  result_rows :: "'r list"
  result_rowCount :: "nat option"
  result_fields :: "(jsstring \<times> nat) list"

text \<open>
  The statements a handler sends to the engine, each with its parameters. The catalog
  statements are fixed texts of the source and are named after what they select; the
  destructured halves of a table name may be \<open>undefined\<close>, which is \<open>None\<close>.
\<close>

datatype stmt =
    UserSql jsstring
  | DigestColumns "jsstring list"
  | DigestIndexes "jsstring list"
  | DigestConstraints "jsstring list"
  | DigestPolicies "jsstring list"
  | DocColumns "jsstring option" "jsstring option"
  | DocConstraints "jsstring option" "jsstring option"
  | DocPolicies "jsstring option" "jsstring option"

datatype event = Connect | Issue stmt | Release | Fetch jsstring

text \<open>
  The data engine behind the pool: \<open>connect\<close> is the message \<open>pool.connect()\<close> rejects
  with, if it does; every query either fails with the engine's message or returns rows.
  Rows of the user's statement and of the table document are passed through untouched,
  so their type is a parameter.
\<close>

record 'r engine =
  connect :: "jsstring option"
  user_query :: "jsstring \<Rightarrow> jsstring + 'r query_result"
  digest_columns :: "jsstring list \<Rightarrow> jsstring + column_row list"
  digest_indexes :: "jsstring list \<Rightarrow> jsstring + index_row list"
  digest_constraints :: "jsstring list \<Rightarrow> jsstring + constraint_row list"
  digest_policies :: "jsstring list \<Rightarrow> jsstring + policy_row list"
  doc_columns :: "jsstring option \<Rightarrow> jsstring option \<Rightarrow> jsstring + 'r list"
  doc_constraints :: "jsstring option \<Rightarrow> jsstring option \<Rightarrow> jsstring + 'r list"
  doc_policies :: "jsstring option \<Rightarrow> jsstring option \<Rightarrow> jsstring + 'r list"

section \<open>Schema digest\<close>

record column_info =
  col_name :: jsstring
  col_type :: jsstring
  nullable :: bool

record index_info =
  idx_name :: jsstring
  idx_def :: jsstring

record constraint_info =
  cons_name :: jsstring
  cons_type :: jsstring

record policy_info =
  rls_name :: jsstring
  rls_cmd :: jsstring

record table_entry =
  t_schema :: jsstring
  t_table :: jsstring
  t_columns :: "column_info list"
  t_indexes :: "index_info list"
  t_constraints :: "constraint_info list"
  t_rls :: "policy_info list"

text \<open>
  The summary map is a plain object used as a dictionary. Its keys all contain a dot, so
  none is an array index and none is a property of \<open>Object.prototype\<close>:
  \<open>Object.values\<close> and \<open>Object.keys\<close> enumerate the entries in insertion order,
  and a lookup finds own properties only. An association list in insertion order, with
  at most one pair for a key, models it.
\<close>

type_synonym summary_map = "(jsstring \<times> table_entry) list"

definition table_key :: "jsstring \<Rightarrow> jsstring \<Rightarrow> jsstring" where
  \<comment> \<open>The key template: schema, a dot, table.\<close>
  "table_key s t = s @ utf16 ''.'' @ t"

definition modify :: "jsstring \<Rightarrow> (table_entry \<Rightarrow> table_entry) \<Rightarrow> summary_map \<Rightarrow> summary_map" where
  \<comment> \<open>In-place mutation of the object stored under a key.\<close>
  "modify key f m = map (\<lambda>(k, e). if k = key then (k, f e) else (k, e)) m"

definition add_column :: "summary_map \<Rightarrow> column_row \<Rightarrow> summary_map" where
  "add_column m row =
     (let key = table_key (table_schema row) (table_name row);
          m' = (case map_of m key of
                  None \<Rightarrow> m @ [(key, \<lparr>t_schema = table_schema row, t_table = table_name row,
                                      t_columns = [], t_indexes = [], t_constraints = [],
                                      t_rls = []\<rparr>)]
                | Some e \<Rightarrow> m)
      in modify key (\<lambda>e. e\<lparr>t_columns := t_columns e @
           [\<lparr>col_name = column_name row, col_type = data_type row,
             nullable = (is_nullable row = utf16 ''YES'')\<rparr>]\<rparr>) m')"

definition add_index :: "summary_map \<Rightarrow> index_row \<Rightarrow> summary_map" where
  "add_index m i =
     (let key = table_key (schemaname i) (tablename i)
      in case map_of m key of
           None \<Rightarrow> m
         | Some e \<Rightarrow> modify key (\<lambda>e. e\<lparr>t_indexes := t_indexes e @
               [\<lparr>idx_name = indexname i, idx_def = indexdef i\<rparr>]\<rparr>) m)"

definition add_constraint :: "summary_map \<Rightarrow> constraint_row \<Rightarrow> summary_map" where
  "add_constraint m c =
     (let key = table_key (con_schema c) (con_table c)
      in case map_of m key of
           None \<Rightarrow> m
         | Some e \<Rightarrow> modify key (\<lambda>e. e\<lparr>t_constraints := t_constraints e @
               [\<lparr>cons_name = conname c, cons_type = contype c\<rparr>]\<rparr>) m)"

definition add_policy :: "summary_map \<Rightarrow> policy_row \<Rightarrow> summary_map" where
  "add_policy m p =
     (let key = table_key (pol_schema p) (pol_table p)
      in case map_of m key of
           None \<Rightarrow> m
         | Some e \<Rightarrow> modify key (\<lambda>e. e\<lparr>t_rls := t_rls e @
               [\<lparr>rls_name = policy_name p, rls_cmd = pol_cmd p\<rparr>]\<rparr>) m)"

definition build_map ::
  "column_row list \<Rightarrow> index_row list \<Rightarrow> constraint_row list \<Rightarrow> policy_row list \<Rightarrow> summary_map" where
  \<comment> \<open>The four \<open>for\<close> loops over the result sets, in the order of the source.\<close>
  "build_map cols idx cons rls =
     foldl add_policy (foldl add_constraint (foldl add_index (foldl add_column [] cols) idx) cons) rls"

record digest_entry =
  d_schema :: jsstring
  d_table :: jsstring
  d_cols :: "jsstring list"
  idx_count :: nat
  cons_count :: nat
  d_rls :: bool

definition render_column :: "column_info \<Rightarrow> jsstring" where
  \<comment> \<open>The column template: name, a colon, type, then nothing when nullable and \<open>!\<close> otherwise.\<close>
  "render_column c =
     col_name c @ utf16 '':'' @ col_type c @ (if nullable c then utf16 [] else utf16 ''!'')"

definition render_entry :: "table_entry \<Rightarrow> digest_entry" where
  "render_entry t =
     \<lparr>d_schema = t_schema t, d_table = t_table t, d_cols = map render_column (t_columns t),
      idx_count = length (t_indexes t), cons_count = length (t_constraints t),
      d_rls = (length (t_rls t) > 0)\<rparr>"

record introspect_result =
  digest :: "digest_entry list"
  table_count :: nat
  d_note :: jsstring

datatype schemas_arg =
    SchemasAbsent
  | SchemasNull
  | SchemasString jsstring
  | SchemasNumber int
  | SchemasArray "jsstring list"

fun effective_schemas :: "schemas_arg \<Rightarrow> jsstring list" where
  \<comment> \<open>\<^verbatim>\<open>Array.isArray(params?.schemas) ? params.schemas : ['public']\<close>\<close>
  "effective_schemas (SchemasArray ss) = ss"
| "effective_schemas other = [utf16 ''public'']"

section \<open>Tool handlers\<close>

text \<open>
  A handler returns what it resolves to (\<open>Inr\<close>) or the error it throws (\<open>Inl\<close>),
  together with what it did to its collaborators, in order. Arguments arrive as JSON:
  an argument that is absent or \<open>null\<close> is \<open>None\<close>; \<open>String(...)\<close> of anything else
  is the string given here, and a limit is an integer, as the tool's interface asks.
\<close>

definition sbsh_introspect_schema ::
  "config \<Rightarrow> 'r engine \<Rightarrow> schemas_arg \<Rightarrow> (error + introspect_result) \<times> event list" where
  "sbsh_introspect_schema cfg eng schemas_arg =
     (if utf16 ''database'' \<notin> FEATURES cfg
      then (Inl (FeatureDisabled (utf16 ''database'')), [])
      else case connect eng of
        Some m \<Rightarrow> (Inl (DataAccess m), [Connect])
      | None \<Rightarrow>
         (let schemas = effective_schemas schemas_arg;
              q1 = [Connect, Issue (DigestColumns schemas)];
              q2 = q1 @ [Issue (DigestIndexes schemas)];
              q3 = q2 @ [Issue (DigestConstraints schemas)];
              q4 = q3 @ [Issue (DigestPolicies schemas)]
          in case digest_columns eng schemas of
            Inl m \<Rightarrow> (Inl (DataAccess m), q1 @ [Release])
          | Inr cols \<Rightarrow>
           (case digest_indexes eng schemas of
              Inl m \<Rightarrow> (Inl (DataAccess m), q2 @ [Release])
            | Inr idx \<Rightarrow>
             (case digest_constraints eng schemas of
                Inl m \<Rightarrow> (Inl (DataAccess m), q3 @ [Release])
              | Inr cons \<Rightarrow>
               (case digest_policies eng schemas of
                  Inl m \<Rightarrow> (Inl (DataAccess m), q4 @ [Release])
                | Inr rls \<Rightarrow>
                   (let m = build_map cols idx cons rls
                    in (Inr \<lparr>digest = map (render_entry \<circ> snd) m,
                              table_count = length (map fst m),
                              d_note = utf16 ''Use sbsh_get_table_doc for detailed column info''\<rparr>,
                        q4 @ [Release])))))))"

record 'r query_output =
  out_rows :: "'r list"
  out_rowCount :: "nat option"
  truncated :: bool
  out_fields :: "(jsstring \<times> nat) list"

datatype 'r exec_result = ExplainPlan "'r list" | QueryRows "'r query_output"

definition slice0 :: "'a list \<Rightarrow> int \<Rightarrow> 'a list" where
  \<comment> \<open>\<open>Array.prototype.slice(0, e)\<close> for an integer \<open>e\<close>: a negative end counts from the
      end of the array and stops at 0, any other end stops at the length.\<close>
  "slice0 xs e =
     (if e < 0 then take (nat (max (int (length xs) + e) 0)) xs
      else take (nat (min e (int (length xs)))) xs)"

definition sbsh_execute_sql ::
  "config \<Rightarrow> 'r engine \<Rightarrow> jsstring option \<Rightarrow> int option \<Rightarrow> (error + 'r exec_result) \<times> event list" where
  "sbsh_execute_sql cfg eng sql_arg limit_arg =
     (if utf16 ''database'' \<notin> FEATURES cfg
      then (Inl (FeatureDisabled (utf16 ''database'')), [])
      else
       (let sql = (case sql_arg of None \<Rightarrow> utf16 [] | Some s \<Rightarrow> s);
            limit = min (case limit_arg of None \<Rightarrow> 100 | Some l \<Rightarrow> l) 1000
        in if trim sql = [] then (Inl SqlRequired, [])
           else if safety_check (READ_ONLY cfg) sql then (Inl ReadOnlyBlocked, [])
           else case connect eng of
             Some m \<Rightarrow> (Inl (DataAccess m), [Connect])
           | None \<Rightarrow>
              (if isExplain sql
               then (case user_query eng sql of
                       Inl m \<Rightarrow> (Inl (DataAccess m), [Connect, Issue (UserSql sql), Release])
                     | Inr result \<Rightarrow>
                         (Inr (ExplainPlan (result_rows result)),
                          [Connect, Issue (UserSql sql), Release]))
               else (case user_query eng sql of
                       Inl m \<Rightarrow> (Inl (DataAccess m), [Connect, Issue (UserSql sql), Release])
                     | Inr result \<Rightarrow>
                         (Inr (QueryRows
                            \<lparr>out_rows = slice0 (result_rows result) limit,
                             out_rowCount = result_rowCount result,
                             truncated = (int (length (result_rows result)) > limit),
                             out_fields = result_fields result\<rparr>),
                          [Connect, Issue (UserSql sql), Release])))))"

datatype 'j json_body = JsonArray "'j list" | JsonOther 'j

record 'j response =
  resp_ok :: bool
  resp_status :: nat
  resp_text :: jsstring
  resp_json :: "jsstring + 'j json_body"

text \<open>
  The REST layer: \<open>url_encode\<close> is the serialisation of \<open>URLSearchParams\<close> and
  \<open>fetch\<close> the request itself, which may reject with a message.
\<close>

record 'j http =
  url_encode :: "(jsstring \<times> jsstring) list \<Rightarrow> jsstring"
  fetch :: "jsstring \<Rightarrow> (jsstring \<times> jsstring) list \<Rightarrow> jsstring + 'j response"

record 'j postgrest_result =
  pg_data :: "'j json_body"
  pg_count :: nat
  rls_respected :: bool

definition sbsh_postgrest_get ::
  "config \<Rightarrow> 'j http \<Rightarrow> jsstring option \<Rightarrow> (jsstring \<times> jsstring) list option
     \<Rightarrow> (error + 'j postgrest_result) \<times> event list" where
  "sbsh_postgrest_get cfg web table_arg query_arg =
     (if utf16 ''postgrest'' \<notin> FEATURES cfg
      then (Inl (FeatureDisabled (utf16 ''postgrest'')), [])
      else if POSTGREST_JWT cfg = [] then (Inl JwtNotConfigured, [])
      else
       (let table = (case table_arg of None \<Rightarrow> utf16 [] | Some t \<Rightarrow> t);
            query = (case query_arg of None \<Rightarrow> [] | Some q \<Rightarrow> q)
        in if table = [] then (Inl TableRequired, [])
           else
            (let url = POSTGREST_URL cfg @ utf16 ''/'' @ table @ utf16 ''?'' @ url_encode web query;
                 headers = [(utf16 ''Authorization'', utf16 ''Bearer '' @ POSTGREST_JWT cfg),
                            (utf16 ''apikey'', POSTGREST_JWT cfg),
                            (utf16 ''Content-Type'', utf16 ''application/json'')]
             in case fetch web url headers of
                  Inl m \<Rightarrow> (Inl (DataAccess m), [Fetch url])
                | Inr resp \<Rightarrow>
                    if \<not> resp_ok resp
                    then (Inl (PostgrestFailure (resp_status resp) (resp_text resp)), [Fetch url])
                    else (case resp_json resp of
                            Inl m \<Rightarrow> (Inl (DataAccess m), [Fetch url])
                          | Inr d \<Rightarrow>
                              (Inr \<lparr>pg_data = d,
                                    pg_count = (case d of JsonArray xs \<Rightarrow> length xs | JsonOther x \<Rightarrow> 0),
                                    rls_respected = True\<rparr>,
                               [Fetch url])))))"

fun split :: "code_unit \<Rightarrow> jsstring \<Rightarrow> jsstring list" where
  \<comment> \<open>\<open>String.prototype.split\<close> with a separator of one code unit.\<close>
  "split sep [] = [[]]"
| "split sep (c # cs) =
     (if c = sep then [] # split sep cs
      else (case split sep cs of [] \<Rightarrow> [[c]] | piece # pieces \<Rightarrow> (c # piece) # pieces))"

fun destructure2 :: "'a list \<Rightarrow> 'a option \<times> 'a option" where
  \<comment> \<open>The array pattern with two names; a missing element is \<open>undefined\<close>.\<close>
  "destructure2 [] = (None, None)"
| "destructure2 [a] = (Some a, None)"
| "destructure2 (a # b # rest) = (Some a, Some b)"

definition resolve_table :: "jsstring \<Rightarrow> jsstring option \<times> jsstring option" where
  "resolve_table tableInput =
     (if 46 \<in> set tableInput then destructure2 (split 46 tableInput)
      else destructure2 [utf16 ''public'', tableInput])"

record 'r table_doc =
  doc_schema :: "jsstring option"
  doc_table :: "jsstring option"
  columns :: "'r list"
  constraints :: "'r list"
  rls_policies :: "'r list"
  rls_enabled :: bool

definition sbsh_get_table_doc ::
  "config \<Rightarrow> 'r engine \<Rightarrow> jsstring option \<Rightarrow> (error + 'r table_doc) \<times> event list" where
  "sbsh_get_table_doc cfg eng table_arg =
     (if utf16 ''docs'' \<notin> FEATURES cfg
      then (Inl (FeatureDisabled (utf16 ''docs'')), [])
      else
       (let tableInput = (case table_arg of None \<Rightarrow> utf16 [] | Some t \<Rightarrow> t)
        in if tableInput = [] then (Inl TableRequired, [])
           else
            (let (schema, table) = resolve_table tableInput
             in case connect eng of
               Some m \<Rightarrow> (Inl (DataAccess m), [Connect])
             | None \<Rightarrow>
                (let q1 = [Connect, Issue (DocColumns schema table)];
                     q2 = q1 @ [Issue (DocConstraints schema table)];
                     q3 = q2 @ [Issue (DocPolicies schema table)]
                 in case doc_columns eng schema table of
                   Inl m \<Rightarrow> (Inl (DataAccess m), q1 @ [Release])
                 | Inr cols \<Rightarrow>
                  (case doc_constraints eng schema table of
                     Inl m \<Rightarrow> (Inl (DataAccess m), q2 @ [Release])
                   | Inr cons \<Rightarrow>
                    (case doc_policies eng schema table of
                       Inl m \<Rightarrow> (Inl (DataAccess m), q3 @ [Release])
                     | Inr rls \<Rightarrow>
                        (Inr \<lparr>doc_schema = schema, doc_table = table, columns = cols,
                              constraints = cons, rls_policies = rls,
                              rls_enabled = (length rls > 0)\<rparr>,
                         q3 @ [Release])))))))"

section \<open>A configuration and an engine for worked examples\<close>

definition default_config :: config where
  \<comment> \<open>The configuration of a process started with an empty environment.\<close>
  "default_config =
     \<lparr>READ_ONLY = True,
      FEATURES = {utf16 ''database'', utf16 ''docs'', utf16 ''postgrest''},
      POSTGREST_URL = utf16 ''http://127.0.0.1:54321/rest/v1'',
      POSTGREST_JWT = utf16 []\<rparr>"

definition sample_engine ::
  "nat list \<Rightarrow> column_row list \<Rightarrow> index_row list \<Rightarrow> constraint_row list \<Rightarrow> policy_row list
     \<Rightarrow> nat engine" where
  \<comment> \<open>An engine that always connects, answers every statement of the user with the given
      rows, and answers the catalog statements from the given catalog, keeping the rows
      whose schema is among the requested ones as the \<open>WHERE\<close> clauses ask.\<close>
  "sample_engine user_rows cols idx cons pols =
     \<lparr>connect = None,
      user_query = (\<lambda>sql. Inr \<lparr>result_rows = user_rows,
                                 result_rowCount = Some (length user_rows),
                                 result_fields = []\<rparr>),
      digest_columns = (\<lambda>ss. Inr (filter (\<lambda>r. table_schema r \<in> set ss) cols)),
      digest_indexes = (\<lambda>ss. Inr (filter (\<lambda>r. schemaname r \<in> set ss) idx)),
      digest_constraints = (\<lambda>ss. Inr (filter (\<lambda>r. con_schema r \<in> set ss) cons)),
      digest_policies = (\<lambda>ss. Inr (filter (\<lambda>r. pol_schema r \<in> set ss) pols)),
      doc_columns = (\<lambda>s t. Inr []),
      doc_constraints = (\<lambda>s t. Inr []),
      doc_policies = (\<lambda>s t. Inr [])\<rparr>"

text \<open>
  A catalog with one table, \<open>public.users\<close>, with a column \<open>id\<close> that is not
  nullable and a nullable column \<open>email\<close>, a primary key and a policy, and a
  constraint on a table \<open>public.ghost\<close> that has no columns.
\<close>

definition users_columns :: "column_row list" where
  "users_columns =
     [\<lparr>table_schema = utf16 ''public'', table_name = utf16 ''users'', column_name = utf16 ''id'',
       data_type = utf16 ''uuid'', is_nullable = utf16 ''NO''\<rparr>,
      \<lparr>table_schema = utf16 ''public'', table_name = utf16 ''users'', column_name = utf16 ''email'',
       data_type = utf16 ''text'', is_nullable = utf16 ''YES''\<rparr>]"

definition users_constraints :: "constraint_row list" where
  "users_constraints =
     [\<lparr>con_schema = utf16 ''public'', con_table = utf16 ''users'', conname = utf16 ''users_pkey'',
       contype = utf16 ''p''\<rparr>,
      \<lparr>con_schema = utf16 ''public'', con_table = utf16 ''ghost'', conname = utf16 ''ghost_pkey'',
       contype = utf16 ''p''\<rparr>]"

definition users_policies :: "policy_row list" where
  "users_policies =
     [\<lparr>pol_schema = utf16 ''public'', pol_table = utf16 ''users'', policy_name = utf16 ''own_rows'',
       pol_cmd = utf16 ''r''\<rparr>]"

definition users_engine :: "nat engine" where
  "users_engine = sample_engine [] users_columns [] users_constraints users_policies"

text \<open>
  An engine whose answer to every statement of the user is a failure with the text of the
  feature error of the database tools, as a function of the database can raise it.
\<close>

definition spoof_engine :: "nat engine" where
  "spoof_engine =
     (sample_engine [] [] [] [] [])\<lparr>user_query :=
        \<lambda>sql. Inl (utf16 ''Feature \"database\" is disabled'')\<rparr>"

section \<open>The classifier in the words of the specification\<close>

text \<open>
  The specification describes the mutation classifier as a search for a deny-listed token
  as a whole word, compared without regard to case. \<open>spec_is_mutating\<close> follows these
  words, with the two-word token written with the single space the specification prints;
  it is compared with \<open>isMutatingSql\<close> below.
\<close>

definition ci_equal :: "jsstring \<Rightarrow> jsstring \<Rightarrow> bool" where
  "ci_equal u v = (map canonicalize u = map canonicalize v)"

definition whole_word_at :: "jsstring \<Rightarrow> code_unit option \<Rightarrow> jsstring \<Rightarrow> bool" where
  \<comment> \<open>The token stands at the current position, with no word character on either side.\<close>
  "whole_word_at tok p cs =
     (\<not> is_word_before p \<and> length tok \<le> length cs \<and> ci_equal (take (length tok) cs) tok
      \<and> \<not> is_word_here (drop (length tok) cs))"

fun contains_word_from :: "jsstring \<Rightarrow> code_unit option \<Rightarrow> jsstring \<Rightarrow> bool" where
  "contains_word_from tok p [] = whole_word_at tok p []"
| "contains_word_from tok p (c # cs) =
     (whole_word_at tok p (c # cs) \<or> contains_word_from tok (Some c) cs)"

definition contains_word :: "jsstring \<Rightarrow> jsstring \<Rightarrow> bool" where
  "contains_word tok s = contains_word_from tok None s"

definition deny_list :: "string list" where
  "deny_list =
     [''INSERT'', ''UPDATE'', ''DELETE'', ''MERGE'', ''TRUNCATE'', ''ALTER'', ''DROP'',
      ''CREATE'', ''REINDEX'', ''VACUUM'', ''GRANT'', ''REVOKE'', ''COPY'', ''ANALYZE'',
      ''SET ROLE'', ''BEGIN'', ''COMMIT'', ''ROLLBACK'']"

definition spec_is_mutating :: "jsstring \<Rightarrow> bool" where
  "spec_is_mutating s = list_ex (\<lambda>tok. contains_word (utf16 tok) s) deny_list"

section \<open>Vocabulary of the proofs\<close>

text \<open>
  The tokens of the deny list of one word, in the order of the pattern, the code unit
  before the position reached after reading \<open>u\<close>, the alternative of the
  deny pattern with two words, the strings the alternatives of the pattern accept, and the
  alternatives as a list built from the one-word tokens.
\<close>

definition one_word_tokens :: "string list" where
  "one_word_tokens =
     [''INSERT'', ''UPDATE'', ''DELETE'', ''MERGE'', ''TRUNCATE'', ''ALTER'', ''DROP'',
      ''CREATE'', ''REINDEX'', ''VACUUM'', ''GRANT'', ''REVOKE'', ''COPY'', ''ANALYZE'',
      ''BEGIN'', ''COMMIT'', ''ROLLBACK'']"

definition last_opt :: "code_unit option \<Rightarrow> jsstring \<Rightarrow> code_unit option" where
  "last_opt p u = (if u = [] then p else Some (last u))"

definition set_role :: regex where
  "set_role = Seq (lit (utf16 ''SET'')) (Seq WhitePlus (lit (utf16 ''ROLE'')))"

definition kw :: "jsstring \<Rightarrow> bool" where
  "kw u = ((\<exists>tok \<in> set one_word_tokens. ci_equal u (utf16 tok))
     \<or> (\<exists>u1 ws u2. u = u1 @ ws @ u2 \<and> ci_equal u1 (utf16 ''SET'') \<and> ws \<noteq> []
           \<and> list_all white ws \<and> ci_equal u2 (utf16 ''ROLE'')))"

definition banned_alternatives :: "regex list" where
  "banned_alternatives =
     map (\<lambda>tok. lit (utf16 tok)) (take 14 one_word_tokens) @ [set_role]
       @ map (\<lambda>tok. lit (utf16 tok)) (drop 14 one_word_tokens)"

text \<open>
  The key of a row of each result set and of an entry of the digest, the object a row
  becomes in the summary map, the invariant of the summary map (one pair for a key, and the
  key is the schema and table of its entry), and the collection an entry holds under a key.
\<close>

definition col_key :: "column_row \<Rightarrow> jsstring" where
  "col_key r = table_key (table_schema r) (table_name r)"

definition idx_key :: "index_row \<Rightarrow> jsstring" where
  "idx_key r = table_key (schemaname r) (tablename r)"

definition con_key :: "constraint_row \<Rightarrow> jsstring" where
  "con_key r = table_key (con_schema r) (con_table r)"

definition pol_key :: "policy_row \<Rightarrow> jsstring" where
  "pol_key r = table_key (pol_schema r) (pol_table r)"

definition column_of :: "column_row \<Rightarrow> column_info" where
  "column_of r = \<lparr>col_name = column_name r, col_type = data_type r,
                  nullable = (is_nullable r = utf16 ''YES'')\<rparr>"

definition index_of :: "index_row \<Rightarrow> index_info" where
  "index_of r = \<lparr>idx_name = indexname r, idx_def = indexdef r\<rparr>"

definition constraint_of :: "constraint_row \<Rightarrow> constraint_info" where
  "constraint_of r = \<lparr>cons_name = conname r, cons_type = contype r\<rparr>"

definition policy_of :: "policy_row \<Rightarrow> policy_info" where
  "policy_of r = \<lparr>rls_name = policy_name r, rls_cmd = pol_cmd r\<rparr>"

definition keyed :: "summary_map \<Rightarrow> bool" where
  "keyed m = (distinct (map fst m)
     \<and> list_all (\<lambda>(k, e). k = table_key (t_schema e) (t_table e)) m)"

definition at :: "(table_entry \<Rightarrow> 'a list) \<Rightarrow> summary_map \<Rightarrow> jsstring \<Rightarrow> 'a list" where
  "at sel m k = (case map_of m k of None \<Rightarrow> [] | Some e \<Rightarrow> sel e)"

definition entry_key :: "digest_entry \<Rightarrow> jsstring" where
  "entry_key d = table_key (d_schema d) (d_table d)"

section \<open>Evaluation\<close>

lemmas classifier_eval =
  isMutatingSql_def isExplain_def regex_test_def banned_def explain_pattern_def utf16_def
  canonicalize_def word_char_def white_def

section \<open>The gate of execute-sql\<close>

lemma execute_sql_blocked:
  assumes "utf16 ''database'' \<in> FEATURES cfg" "trim S \<noteq> []"
  shows "fst (sbsh_execute_sql cfg eng (Some S) lim) = Inl ReadOnlyBlocked
           \<longleftrightarrow> safety_check (READ_ONLY cfg) S"
    and "safety_check (READ_ONLY cfg) S \<Longrightarrow> snd (sbsh_execute_sql cfg eng (Some S) lim) = []"
  using assms
  by (auto simp: sbsh_execute_sql_def Let_def split: option.splits sum.splits)

text \<open>
  C1. With safe mode on, the guard of execute-sql lets a statement through exactly when
  it is an EXPLAIN or is not classified as mutating: SELECT 1 passes, DROP TABLE t is
  denied, EXPLAIN DELETE FROM t passes. With safe mode off it lets every statement through.
  In the handler, for an enabled tool and a statement that is not blank, the READ_ONLY
  error is thrown exactly when safe mode is on and the guard denies, and then nothing
  reaches the engine.
\<close>

theorem gate_decision:
  "(\<not> safety_check True S \<longleftrightarrow> isExplain S \<or> \<not> isMutatingSql S)
   \<and> \<not> safety_check False S
   \<and> \<not> safety_check True (utf16 ''SELECT 1'')
   \<and> safety_check True (utf16 ''DROP TABLE t'')
   \<and> \<not> safety_check True (utf16 ''EXPLAIN DELETE FROM t'')
   \<and> (utf16 ''database'' \<in> FEATURES cfg \<and> trim S \<noteq> [] \<longrightarrow>
        (fst (sbsh_execute_sql cfg eng (Some S) lim) = Inl ReadOnlyBlocked
           \<longleftrightarrow> READ_ONLY cfg \<and> \<not> (isExplain S \<or> \<not> isMutatingSql S))
        \<and> (fst (sbsh_execute_sql cfg eng (Some S) lim) = Inl ReadOnlyBlocked
           \<longrightarrow> snd (sbsh_execute_sql cfg eng (Some S) lim) = []))"
proof -
  have a: "\<not> isMutatingSql (utf16 ''SELECT 1'')"
    by (simp add: classifier_eval)
  have b: "isMutatingSql (utf16 ''DROP TABLE t'')" "\<not> isExplain (utf16 ''DROP TABLE t'')"
    by (simp_all add: classifier_eval)
  have c: "isExplain (utf16 ''EXPLAIN DELETE FROM t'')"
    by (simp add: classifier_eval)
  have g: "safety_check ro S \<longleftrightarrow> ro \<and> \<not> (isExplain S \<or> \<not> isMutatingSql S)" for ro
    by (simp add: safety_check_def)
  have h: "(fst (sbsh_execute_sql cfg eng (Some S) lim) = Inl ReadOnlyBlocked
           \<longleftrightarrow> READ_ONLY cfg \<and> \<not> (isExplain S \<or> \<not> isMutatingSql S))
        \<and> (fst (sbsh_execute_sql cfg eng (Some S) lim) = Inl ReadOnlyBlocked
           \<longrightarrow> snd (sbsh_execute_sql cfg eng (Some S) lim) = [])"
    if "utf16 ''database'' \<in> FEATURES cfg \<and> trim S \<noteq> []"
    using that execute_sql_blocked [of cfg S eng lim] g [of "READ_ONLY cfg"] by blast
  have "(\<not> safety_check True S \<longleftrightarrow> isExplain S \<or> \<not> isMutatingSql S)
   \<and> \<not> safety_check False S
   \<and> \<not> safety_check True (utf16 ''SELECT 1'')
   \<and> safety_check True (utf16 ''DROP TABLE t'')
   \<and> \<not> safety_check True (utf16 ''EXPLAIN DELETE FROM t'')"
    using a b c by (simp add: safety_check_def)
  with h show ?thesis by blast
qed

theorem gate_decision_witness:
  "sbsh_execute_sql default_config (sample_engine [] [] [] [] []) (Some (utf16 ''DROP TABLE users'')) None
     = (Inl ReadOnlyBlocked, [])
   \<and> isMutatingSql (utf16 ''DROP TABLE users'') \<and> \<not> isExplain (utf16 ''DROP TABLE users'')"
proof -
  have m: "isMutatingSql (utf16 ''DROP TABLE users'')" "\<not> isExplain (utf16 ''DROP TABLE users'')"
    by (simp_all add: classifier_eval)
  have "utf16 ''database'' \<in> FEATURES default_config \<and> trim (utf16 ''DROP TABLE users'') \<noteq> []"
    "READ_ONLY default_config"
    by (simp_all add: default_config_def trim_def utf16_def white_def)
  then show ?thesis
    using m gate_decision [of "utf16 ''DROP TABLE users''" default_config
        "sample_engine [] [] [] [] []" None]
    by (metis prod.collapse)
qed

section \<open>What the deny pattern accepts\<close>

lemma last_opt_simps [simp]:
  "last_opt p [] = p" "last_opt p (c # u) = last_opt (Some c) u"
  by (simp_all add: last_opt_def)

lemma rmatch_seq_iff:
  "st' \<in> set (rmatch (Seq a b) st) \<longleftrightarrow> (\<exists>m \<in> set (rmatch a st). st' \<in> set (rmatch b m))"
  by auto

lemma rmatch_lit_iff:
  "(q, rest) \<in> set (rmatch (lit w) (p, cs)) \<longleftrightarrow>
     (\<exists>u. cs = u @ rest \<and> ci_equal u w \<and> q = last_opt p u)"
proof (induction w arbitrary: p cs)
  case Nil
  then show ?case by (auto simp: ci_equal_def)
next
  case (Cons a w)
  show ?case
  proof (cases cs)
    case Nil
    then show ?thesis by (auto simp: ci_equal_def)
  next
    case (Cons c cs')
    show ?thesis
    proof
      assume "(q, rest) \<in> set (rmatch (lit (a # w)) (p, cs))"
      then have ca: "canonicalize c = canonicalize a"
        and "(q, rest) \<in> set (rmatch (lit w) (Some c, cs'))"
        using Cons by (auto split: if_splits)
      then obtain u where "cs' = u @ rest" "ci_equal u w" "q = last_opt (Some c) u"
        using Cons.IH by blast
      then have "cs = (c # u) @ rest \<and> ci_equal (c # u) (a # w) \<and> q = last_opt p (c # u)"
        using Cons ca by (simp add: ci_equal_def)
      then show "\<exists>u. cs = u @ rest \<and> ci_equal u (a # w) \<and> q = last_opt p u" by blast
    next
      assume "\<exists>u. cs = u @ rest \<and> ci_equal u (a # w) \<and> q = last_opt p u"
      then obtain u where u: "cs = u @ rest" "ci_equal u (a # w)" "q = last_opt p u" by blast
      then obtain d u' where du: "u = d # u'" by (cases u) (auto simp: ci_equal_def)
      with u Cons have "d = c" "cs' = u' @ rest" "canonicalize c = canonicalize a"
        "ci_equal u' w" "q = last_opt (Some c) u'"
        by (auto simp: ci_equal_def)
      then have "(q, rest) \<in> set (rmatch (lit w) (Some c, cs'))"
        using Cons.IH by blast
      then show "(q, rest) \<in> set (rmatch (lit (a # w)) (p, cs))"
        using Cons \<open>canonicalize c = canonicalize a\<close> by simp
    qed
  qed
qed

lemma white_star_iff:
  "(q, rest) \<in> set (white_star p cs) \<longleftrightarrow>
     (\<exists>u. cs = u @ rest \<and> list_all white u \<and> q = last_opt p u)"
proof (induction cs arbitrary: p)
  case Nil
  then show ?case by auto
next
  case (Cons c cs)
  show ?case
  proof
    assume "(q, rest) \<in> set (white_star p (c # cs))"
    then consider "white c" "(q, rest) \<in> set (white_star (Some c) cs)" | "q = p" "rest = c # cs"
      by (auto split: if_splits)
    then show "\<exists>u. c # cs = u @ rest \<and> list_all white u \<and> q = last_opt p u"
    proof cases
      case 1
      then obtain u where "cs = u @ rest" "list_all white u" "q = last_opt (Some c) u"
        using Cons.IH by blast
      with 1 have "c # cs = (c # u) @ rest \<and> list_all white (c # u) \<and> q = last_opt p (c # u)"
        by simp
      then show ?thesis by blast
    next
      case 2
      then have "c # cs = [] @ rest \<and> list_all white [] \<and> q = last_opt p []" by simp
      then show ?thesis by blast
    qed
  next
    assume "\<exists>u. c # cs = u @ rest \<and> list_all white u \<and> q = last_opt p u"
    then obtain u where u: "c # cs = u @ rest" "list_all white u" "q = last_opt p u" by blast
    show "(q, rest) \<in> set (white_star p (c # cs))"
    proof (cases u)
      case Nil
      with u have "rest = c # cs" "q = p" by simp_all
      then show ?thesis by simp
    next
      case (Cons d u')
      with u have "d = c" "cs = u' @ rest" "white c" "list_all white u'" "q = last_opt (Some c) u'"
        by auto
      then have "(q, rest) \<in> set (white_star (Some c) cs)" using Cons.IH by blast
      then show ?thesis using \<open>white c\<close> by simp
    qed
  qed
qed

lemma white_plus_iff:
  "(q, rest) \<in> set (rmatch WhitePlus (p, cs)) \<longleftrightarrow>
     (\<exists>u. u \<noteq> [] \<and> cs = u @ rest \<and> list_all white u \<and> q = last_opt p u)"
proof (cases cs)
  case Nil
  then show ?thesis by auto
next
  case (Cons c cs')
  show ?thesis
  proof
    assume "(q, rest) \<in> set (rmatch WhitePlus (p, cs))"
    then have "white c" "(q, rest) \<in> set (white_star (Some c) cs')"
      using Cons by (auto split: if_splits)
    then obtain u where "cs' = u @ rest" "list_all white u" "q = last_opt (Some c) u"
      using white_star_iff by blast
    then have "c # u \<noteq> [] \<and> cs = (c # u) @ rest \<and> list_all white (c # u) \<and> q = last_opt p (c # u)"
      using Cons \<open>white c\<close> by simp
    then show "\<exists>u. u \<noteq> [] \<and> cs = u @ rest \<and> list_all white u \<and> q = last_opt p u" by blast
  next
    assume "\<exists>u. u \<noteq> [] \<and> cs = u @ rest \<and> list_all white u \<and> q = last_opt p u"
    then obtain u where u: "u \<noteq> []" "cs = u @ rest" "list_all white u" "q = last_opt p u" by blast
    then obtain d u' where "u = d # u'" by (cases u) auto
    with u Cons have "white c" "cs' = u' @ rest" "list_all white u'" "q = last_opt (Some c) u'"
      by auto
    then have "(q, rest) \<in> set (white_star (Some c) cs')" using white_star_iff by blast
    then show "(q, rest) \<in> set (rmatch WhitePlus (p, cs))" using Cons \<open>white c\<close> by simp
  qed
qed

lemma rmatch_alts:
  "rs \<noteq> [] \<Longrightarrow> set (rmatch (alts rs) st) = (\<Union>r \<in> set rs. set (rmatch r st))"
proof (induction rs rule: alts.induct)
  case 1 then show ?case by simp
next
  case (2 r) then show ?case by simp
next
  case (3 r v va)
  then show ?case by simp
qed


lemma last_opt_append: "last_opt (last_opt p u) v = last_opt p (u @ v)"
  by (simp add: last_opt_def)

lemma word_char_canonicalize: "word_char (canonicalize c) = word_char c"
  by (auto simp: word_char_def canonicalize_def)

lemma canonicalize_word_char:
  "canonicalize c = canonicalize a \<Longrightarrow> word_char a \<Longrightarrow> word_char c"
  by (metis word_char_canonicalize)

lemma canonicalize_white:
  "canonicalize c = canonicalize a \<Longrightarrow> white a \<Longrightarrow> c = a"
  by (auto simp: white_def canonicalize_def split: if_splits)

lemma ci_equal_length: "ci_equal u w \<Longrightarrow> length u = length w"
  unfolding ci_equal_def by (rule map_eq_imp_length_eq)

lemma ci_equal_white:
  "ci_equal u w \<Longrightarrow> list_all white w \<Longrightarrow> u = w"
proof (induction w arbitrary: u)
  case Nil
  then show ?case by (simp add: ci_equal_def)
next
  case (Cons a w)
  then obtain c u' where "u = c # u'" by (cases u) (auto simp: ci_equal_def)
  with Cons show ?case by (auto simp: ci_equal_def dest: canonicalize_white)
qed

lemma ci_equal_ends:
  assumes "ci_equal u w" "w \<noteq> []" "word_char (hd w)" "word_char (last w)"
  shows "u \<noteq> [] \<and> word_char (hd u) \<and> word_char (last u)"
proof -
  from assms have ne: "u \<noteq> []" by (auto simp: ci_equal_def)
  have m: "map canonicalize u = map canonicalize w" using assms by (simp add: ci_equal_def)
  have "canonicalize (hd u) = canonicalize (hd w)"
    using m ne assms(2) by (metis hd_map)
  moreover have "canonicalize (last u) = canonicalize (last w)"
    using m ne assms(2) by (metis last_map)
  ultimately show ?thesis
    using ne assms(3,4) canonicalize_word_char by blast
qed

lemma set_role_iff:
  "(q, rest) \<in> set (rmatch set_role (p, cs)) \<longleftrightarrow>
     (\<exists>u1 ws u2. cs = (u1 @ ws @ u2) @ rest \<and> ci_equal u1 (utf16 ''SET'') \<and> ws \<noteq> []
        \<and> list_all white ws \<and> ci_equal u2 (utf16 ''ROLE'') \<and> q = last_opt p (u1 @ ws @ u2))"
  (is "?l \<longleftrightarrow> ?r")
proof
  assume ?l
  then obtain q1 r1 q2 r2 where
    a: "(q1, r1) \<in> set (rmatch (lit (utf16 ''SET'')) (p, cs))" and
    b: "(q2, r2) \<in> set (rmatch WhitePlus (q1, r1))" and
    c: "(q, rest) \<in> set (rmatch (lit (utf16 ''ROLE'')) (q2, r2))"
    unfolding set_role_def rmatch_seq_iff by fastforce
  from a obtain u1 where u1: "cs = u1 @ r1" "ci_equal u1 (utf16 ''SET'')" "q1 = last_opt p u1"
    using rmatch_lit_iff by blast
  from b obtain ws where ws: "ws \<noteq> []" "r1 = ws @ r2" "list_all white ws" "q2 = last_opt q1 ws"
    using white_plus_iff by blast
  from c obtain u2 where u2: "r2 = u2 @ rest" "ci_equal u2 (utf16 ''ROLE'')" "q = last_opt q2 u2"
    using rmatch_lit_iff by blast
  have "cs = (u1 @ ws @ u2) @ rest" using u1 ws u2 by simp
  moreover have "q = last_opt p (u1 @ ws @ u2)"
    using u1 ws u2 by (simp add: last_opt_append)
  ultimately show ?r using u1 ws u2 by blast
next
  assume ?r
  then obtain u1 ws u2 where h: "cs = (u1 @ ws @ u2) @ rest" "ci_equal u1 (utf16 ''SET'')"
    "ws \<noteq> []" "list_all white ws" "ci_equal u2 (utf16 ''ROLE'')" "q = last_opt p (u1 @ ws @ u2)"
    by blast
  have a: "(last_opt p u1, ws @ u2 @ rest) \<in> set (rmatch (lit (utf16 ''SET'')) (p, cs))"
    using h rmatch_lit_iff by auto
  have b: "(last_opt (last_opt p u1) ws, u2 @ rest) \<in> set (rmatch WhitePlus (last_opt p u1, ws @ u2 @ rest))"
    using h white_plus_iff by blast
  have c: "(q, rest) \<in> set (rmatch (lit (utf16 ''ROLE'')) (last_opt (last_opt p u1) ws, u2 @ rest))"
    using h rmatch_lit_iff by (auto simp: last_opt_append)
  show ?l
    unfolding set_role_def rmatch_seq_iff using a b c by blast
qed

lemma banned_alt: "banned = Seq WordB (Seq (alts banned_alternatives) WordB)"
  by (simp add: banned_def banned_alternatives_def one_word_tokens_def set_role_def)

lemma set_banned_alternatives:
  "set banned_alternatives = (\<lambda>tok. lit (utf16 tok)) ` set one_word_tokens \<union> {set_role}"
proof -
  have "set (take 14 one_word_tokens) \<union> set (drop 14 one_word_tokens) = set one_word_tokens"
    by (metis append_take_drop_id set_append)
  then show ?thesis
    unfolding banned_alternatives_def by (auto simp: image_Un [symmetric])
qed

lemma alternatives_iff:
  "(q, rest) \<in> set (rmatch (alts banned_alternatives) (p, cs)) \<longleftrightarrow>
     (\<exists>u. cs = u @ rest \<and> kw u \<and> q = last_opt p u)"
proof -
  have ne: "banned_alternatives \<noteq> []" by (simp add: banned_alternatives_def)
  have "(q, rest) \<in> set (rmatch (alts banned_alternatives) (p, cs)) \<longleftrightarrow>
      (\<exists>tok \<in> set one_word_tokens. (q, rest) \<in> set (rmatch (lit (utf16 tok)) (p, cs)))
      \<or> (q, rest) \<in> set (rmatch set_role (p, cs))"
    unfolding rmatch_alts [OF ne] set_banned_alternatives by auto
  also have "\<dots> \<longleftrightarrow> (\<exists>u. cs = u @ rest \<and> kw u \<and> q = last_opt p u)"
    unfolding rmatch_lit_iff set_role_iff kw_def by blast
  finally show ?thesis .
qed


lemma one_word_tokens_ends:
  "list_all (\<lambda>tok. utf16 tok \<noteq> [] \<and> word_char (hd (utf16 tok)) \<and> word_char (last (utf16 tok)))
     one_word_tokens"
  by (simp add: one_word_tokens_def utf16_def word_char_def)

lemma kw_ends:
  assumes "kw u"
  shows "u \<noteq> [] \<and> word_char (hd u) \<and> word_char (last u)"
proof -
  from assms consider tok where "tok \<in> set one_word_tokens" "ci_equal u (utf16 tok)"
    | u1 ws u2 where "u = u1 @ ws @ u2" "ci_equal u1 (utf16 ''SET'')" "ws \<noteq> []"
        "ci_equal u2 (utf16 ''ROLE'')"
    unfolding kw_def by blast
  then show ?thesis
  proof cases
    case 1
    then have "utf16 tok \<noteq> [] \<and> word_char (hd (utf16 tok)) \<and> word_char (last (utf16 tok))"
      using one_word_tokens_ends by (simp add: list_all_iff)
    then show ?thesis using 1 ci_equal_ends by blast
  next
    case 2
    have "u1 \<noteq> [] \<and> word_char (hd u1) \<and> word_char (last u1)"
      by (rule ci_equal_ends [OF 2(2)]) (simp_all add: utf16_def word_char_def)
    moreover have "u2 \<noteq> [] \<and> word_char (hd u2) \<and> word_char (last u2)"
      by (rule ci_equal_ends [OF 2(4)]) (simp_all add: utf16_def word_char_def)
    ultimately show ?thesis using 2(1) by simp
  qed
qed

lemma is_word_here_append: "u \<noteq> [] \<Longrightarrow> is_word_here (u @ rest) = word_char (hd u)"
  by (cases u) simp_all

lemma is_word_before_last_opt: "u \<noteq> [] \<Longrightarrow> is_word_before (last_opt p u) = word_char (last u)"
  by (simp add: last_opt_def)

lemma banned_here_iff:
  "rmatch banned (p, cs) \<noteq> [] \<longleftrightarrow>
     (\<exists>u rest. cs = u @ rest \<and> kw u \<and> \<not> is_word_before p \<and> \<not> is_word_here rest)"
  (is "?l \<longleftrightarrow> ?r")
proof
  assume ?l
  then obtain st where "st \<in> set (rmatch banned (p, cs))" by (cases "rmatch banned (p, cs)") auto
  then obtain q rest where
    b1: "is_word_before p \<noteq> is_word_here cs" and
    m: "(q, rest) \<in> set (rmatch (alts banned_alternatives) (p, cs))" and
    b2: "is_word_before q \<noteq> is_word_here rest"
    unfolding banned_alt rmatch_seq_iff by (fastforce split: if_splits)
  from m obtain u where u: "cs = u @ rest" "kw u" "q = last_opt p u"
    using alternatives_iff by blast
  from kw_ends [OF u(2)] have e: "u \<noteq> []" "word_char (hd u)" "word_char (last u)" by simp_all
  have "\<not> is_word_before p" using b1 u(1) e by (simp add: is_word_here_append)
  moreover have "\<not> is_word_here rest" using b2 u(3) e by (simp add: is_word_before_last_opt)
  ultimately show ?r using u by blast
next
  assume ?r
  then obtain u rest where u: "cs = u @ rest" "kw u" "\<not> is_word_before p" "\<not> is_word_here rest"
    by blast
  from kw_ends [OF u(2)] have e: "u \<noteq> []" "word_char (hd u)" "word_char (last u)" by simp_all
  have m: "(last_opt p u, rest) \<in> set (rmatch (alts banned_alternatives) (p, cs))"
    using alternatives_iff u by blast
  have b1: "(p, cs) \<in> set (rmatch WordB (p, cs))"
    using u e by (simp add: is_word_here_append)
  have b2: "(last_opt p u, rest) \<in> set (rmatch WordB (last_opt p u, rest))"
    using u e by (simp add: is_word_before_last_opt)
  have "(last_opt p u, rest) \<in> set (rmatch banned (p, cs))"
    unfolding banned_alt rmatch_seq_iff using b1 m b2 by blast
  then show ?l by auto
qed

lemma whole_word_at_iff:
  "whole_word_at tok p cs \<longleftrightarrow>
     (\<exists>u rest. cs = u @ rest \<and> ci_equal u tok \<and> \<not> is_word_before p \<and> \<not> is_word_here rest)"
  (is "?l \<longleftrightarrow> ?r")
proof
  assume ?l
  then have "cs = take (length tok) cs @ drop (length tok) cs
      \<and> ci_equal (take (length tok) cs) tok \<and> \<not> is_word_before p
      \<and> \<not> is_word_here (drop (length tok) cs)"
    by (simp add: whole_word_at_def)
  then show ?r by blast
next
  assume ?r
  then obtain u rest where u: "cs = u @ rest" "ci_equal u tok" "\<not> is_word_before p"
    "\<not> is_word_here rest" by blast
  from ci_equal_length [OF u(2)] have "length u = length tok" .
  then show ?l using u by (simp add: whole_word_at_def)
qed

lemma kw_iff:
  "kw u \<longleftrightarrow> (\<exists>tok \<in> set one_word_tokens. ci_equal u (utf16 tok))
     \<or> (\<exists>ws. ws \<noteq> [] \<and> list_all white ws \<and> ci_equal u (utf16 ''SET'' @ ws @ utf16 ''ROLE''))"
proof -
  have "(\<exists>u1 ws u2. u = u1 @ ws @ u2 \<and> ci_equal u1 (utf16 ''SET'') \<and> ws \<noteq> []
           \<and> list_all white ws \<and> ci_equal u2 (utf16 ''ROLE''))
     \<longleftrightarrow> (\<exists>ws. ws \<noteq> [] \<and> list_all white ws \<and> ci_equal u (utf16 ''SET'' @ ws @ utf16 ''ROLE''))"
    (is "?a \<longleftrightarrow> ?b")
  proof
    assume ?a
    then obtain u1 ws u2 where "u = u1 @ ws @ u2" "ci_equal u1 (utf16 ''SET'')" "ws \<noteq> []"
      "list_all white ws" "ci_equal u2 (utf16 ''ROLE'')" by blast
    then have "ws \<noteq> [] \<and> list_all white ws \<and> ci_equal u (utf16 ''SET'' @ ws @ utf16 ''ROLE'')"
      by (simp add: ci_equal_def)
    then show ?b by blast
  next
    assume ?b
    then obtain ws where ws: "ws \<noteq> []" "list_all white ws"
      "map canonicalize u = map canonicalize (utf16 ''SET'') @ map canonicalize ws
          @ map canonicalize (utf16 ''ROLE'')"
      by (auto simp: ci_equal_def)
    have "\<exists>us vs. u = us @ vs \<and> map canonicalize (utf16 ''SET'') = map canonicalize us
        \<and> map canonicalize ws @ map canonicalize (utf16 ''ROLE'') = map canonicalize vs"
      using ws(3) by (rule map_eq_append_conv [THEN iffD1])
    then obtain u1 v where v: "u = u1 @ v"
      "map canonicalize (utf16 ''SET'') = map canonicalize u1"
      "map canonicalize v = map canonicalize ws @ map canonicalize (utf16 ''ROLE'')"
      by metis
    have "\<exists>us vs. v = us @ vs \<and> map canonicalize ws = map canonicalize us
        \<and> map canonicalize (utf16 ''ROLE'') = map canonicalize vs"
      using v(3) by (rule map_eq_append_conv [THEN iffD1])
    then obtain ws' u2 where w: "v = ws' @ u2" "map canonicalize ws' = map canonicalize ws"
      "map canonicalize (utf16 ''ROLE'') = map canonicalize u2"
      by metis
    have "ws' = ws" using w(2) ws(2) ci_equal_white by (simp add: ci_equal_def)
    then have "u = u1 @ ws @ u2 \<and> ci_equal u1 (utf16 ''SET'') \<and> ws \<noteq> [] \<and> list_all white ws
        \<and> ci_equal u2 (utf16 ''ROLE'')"
      using v w ws by (simp add: ci_equal_def)
    then show ?a by blast
  qed
  then show ?thesis unfolding kw_def by simp
qed

lemma banned_here_tokens:
  "rmatch banned (p, cs) \<noteq> [] \<longleftrightarrow>
     (\<exists>tok \<in> set one_word_tokens. whole_word_at (utf16 tok) p cs)
     \<or> (\<exists>ws. ws \<noteq> [] \<and> list_all white ws
           \<and> whole_word_at (utf16 ''SET'' @ ws @ utf16 ''ROLE'') p cs)"
  unfolding banned_here_iff whole_word_at_iff kw_iff by blast

lemma test_from_banned:
  "test_from banned p cs \<longleftrightarrow>
     (\<exists>tok \<in> set one_word_tokens. contains_word_from (utf16 tok) p cs)
     \<or> (\<exists>ws. ws \<noteq> [] \<and> list_all white ws
           \<and> contains_word_from (utf16 ''SET'' @ ws @ utf16 ''ROLE'') p cs)"
proof (induction cs arbitrary: p)
  case Nil
  show ?case by (simp add: banned_here_tokens)
next
  case (Cons c cs)
  show ?case
    unfolding test_from.simps contains_word_from.simps banned_here_tokens Cons.IH by blast
qed

text \<open>
  C2, as amended. A statement is classified as mutating exactly when it contains, as a
  whole word and without regard to case, one of the seventeen one-word tokens, or SET and
  ROLE separated by one or more white-space code units of any kind. Every statement that
  contains a token of the deny list as the specification writes it is therefore classified
  as mutating.
\<close>

theorem isMutatingSql_tokens:
  "(isMutatingSql S \<longleftrightarrow>
      (\<exists>tok \<in> set one_word_tokens. contains_word (utf16 tok) S)
      \<or> (\<exists>ws. ws \<noteq> [] \<and> list_all white ws
            \<and> contains_word (utf16 ''SET'' @ ws @ utf16 ''ROLE'') S))
   \<and> (spec_is_mutating S \<longrightarrow> isMutatingSql S)"
proof -
  have eq: "isMutatingSql S \<longleftrightarrow>
      (\<exists>tok \<in> set one_word_tokens. contains_word (utf16 tok) S)
      \<or> (\<exists>ws. ws \<noteq> [] \<and> list_all white ws
            \<and> contains_word (utf16 ''SET'' @ ws @ utf16 ''ROLE'') S)"
    by (simp add: isMutatingSql_def regex_test_def contains_word_def test_from_banned)
  have "isMutatingSql S" if "spec_is_mutating S"
  proof -
    have "set deny_list = set one_word_tokens \<union> {''SET ROLE''}"
      by (auto simp: deny_list_def one_word_tokens_def)
    with that consider tok where "tok \<in> set one_word_tokens" "contains_word (utf16 tok) S"
      | "contains_word (utf16 ''SET ROLE'') S"
      by (auto simp: spec_is_mutating_def list_ex_iff)
    then show ?thesis
    proof cases
      case 1
      then show ?thesis using eq by blast
    next
      case 2
      have "[32] \<noteq> [] \<and> list_all white [32]
          \<and> contains_word (utf16 ''SET'' @ [32] @ utf16 ''ROLE'') S"
        using 2 by (simp add: utf16_def white_def)
      then show ?thesis using eq by blast
    qed
  qed
  with eq show ?thesis by blast
qed

theorem isMutatingSql_tokens_witness:
  "spec_is_mutating (utf16 ''delete from t'') \<and> isMutatingSql (utf16 ''delete from t'')"
proof -
  have "spec_is_mutating (utf16 ''delete from t'')"
    by (simp add: spec_is_mutating_def deny_list_def contains_word_def
        whole_word_at_def ci_equal_def utf16_def canonicalize_def word_char_def)
  then show ?thesis
    using isMutatingSql_tokens [of "utf16 ''delete from t''"] by blast
qed

theorem spec_is_mutating_counterexample:
  "isMutatingSql (utf16 ''SET  ROLE admin'') \<and> \<not> spec_is_mutating (utf16 ''SET  ROLE admin'')"
proof -
  have "isMutatingSql (utf16 ''SET  ROLE admin'')"
    by (simp add: classifier_eval)
  moreover have "\<not> spec_is_mutating (utf16 ''SET  ROLE admin'')"
    by (simp add: spec_is_mutating_def deny_list_def contains_word_def
        whole_word_at_def ci_equal_def utf16_def canonicalize_def word_char_def)
  ultimately show ?thesis by simp
qed

section \<open>Row limit of execute-sql\<close>

lemma execute_sql_query:
  assumes "utf16 ''database'' \<in> FEATURES cfg" "trim sql \<noteq> []"
    "\<not> safety_check (READ_ONLY cfg) sql" "\<not> isExplain sql"
    "connect eng = None" "user_query eng sql = Inr res"
  shows "sbsh_execute_sql cfg eng (Some sql) limit_arg =
     (Inr (QueryRows
        \<lparr>out_rows = slice0 (result_rows res) (min (case limit_arg of None \<Rightarrow> 100 | Some l \<Rightarrow> l) 1000),
         out_rowCount = result_rowCount res,
         truncated = (int (length (result_rows res)) > min (case limit_arg of None \<Rightarrow> 100 | Some l \<Rightarrow> l) 1000),
         out_fields = result_fields res\<rparr>),
      [Connect, Issue (UserSql sql), Release])"
  using assms by (simp add: sbsh_execute_sql_def Let_def)

lemma select_all_facts:
  "trim (utf16 ''SELECT * FROM t'') \<noteq> []"
  "\<not> safety_check True (utf16 ''SELECT * FROM t'')"
  "\<not> isExplain (utf16 ''SELECT * FROM t'')"
proof -
  show "trim (utf16 ''SELECT * FROM t'') \<noteq> []"
    by (simp add: trim_def utf16_def white_def)
  have "\<not> isMutatingSql (utf16 ''SELECT * FROM t'')" by (simp add: classifier_eval)
  then show "\<not> safety_check True (utf16 ''SELECT * FROM t'')" by (simp add: safety_check_def)
  show "\<not> isExplain (utf16 ''SELECT * FROM t'')" by (simp add: classifier_eval)
qed

lemma select_all_allowed:
  "\<not> safety_check (READ_ONLY default_config) (utf16 ''SELECT * FROM t'')"
  using select_all_facts(2) by (simp add: default_config_def)

lemma database_enabled: "utf16 ''database'' \<in> FEATURES default_config"
  by (simp add: default_config_def)

text \<open>
  C3, as amended. For a call of execute-sql that is not an EXPLAIN and whose statement the
  engine answers with N rows, and for a requested limit L that is an integer of at least 0
  (100 when the argument is omitted), the handler returns the first min(L, 1000) rows: the
  number of rows returned is min(N, min(L, 1000)) and truncated tells whether N exceeds
  min(L, 1000).
\<close>

theorem row_limit_law:
  assumes "utf16 ''database'' \<in> FEATURES cfg" "trim sql \<noteq> []"
    "\<not> safety_check (READ_ONLY cfg) sql" "\<not> isExplain sql"
    "connect eng = None" "user_query eng sql = Inr res"
    "L = (case limit_arg of None \<Rightarrow> 100 | Some l \<Rightarrow> l)" "0 \<le> L"
  shows "\<exists>out. fst (sbsh_execute_sql cfg eng (Some sql) limit_arg) = Inr (QueryRows out)
     \<and> out_rows out = take (nat (min L 1000)) (result_rows res)
     \<and> int (length (out_rows out)) = min (int (length (result_rows res))) (min L 1000)
     \<and> truncated out = (int (length (result_rows res)) > min L 1000)"
  using assms(7,8) unfolding execute_sql_query [OF assms(1-6)]
  by (auto simp: slice0_def min_def)

theorem row_limit_law_witness:
  "\<exists>out. fst (sbsh_execute_sql default_config (sample_engine (replicate 1500 0) [] [] [] [])
       (Some (utf16 ''SELECT * FROM t'')) None) = Inr (QueryRows out)
     \<and> length (out_rows out) = 100 \<and> truncated out"
proof -
  from row_limit_law [OF database_enabled select_all_facts(1) select_all_allowed select_all_facts(3),
      of "sample_engine (replicate 1500 0) [] [] [] []"
         "\<lparr>result_rows = replicate 1500 0, result_rowCount = Some 1500, result_fields = []\<rparr>"
         100 None]
  show ?thesis by (auto simp add: sample_engine_def)
qed

theorem row_limit_law_counterexample:
  "fst (sbsh_execute_sql default_config (sample_engine [1, 2, 3] [] [] [] [])
       (Some (utf16 ''SELECT * FROM t'')) (Some (- 1)))
     = Inr (QueryRows \<lparr>out_rows = [1, 2], out_rowCount = Some 3, truncated = True, out_fields = []\<rparr>)
   \<and> int (length [1 :: nat, 2]) \<noteq> min (int (length [1 :: nat, 2, 3])) (min (- 1) 1000)"
proof -
  from execute_sql_query [OF database_enabled select_all_facts(1) select_all_allowed select_all_facts(3),
      of "sample_engine [1, 2, 3] [] [] [] []"
         "\<lparr>result_rows = [1, 2, 3], result_rowCount = Some 3, result_fields = []\<rparr>"
         "Some (- 1)"]
  show ?thesis by (simp add: sample_engine_def slice0_def)
qed

text \<open>
  C9. A negative limit is not raised to 0: for a call of execute-sql that is not an EXPLAIN,
  with a limit L below 0 and N rows from the engine, the rows returned are
  \<open>slice(0, L)\<close> of them, which are the first max(0, N + L) (the last -L are dropped), and
  truncated is N > L, which is true for every N.
\<close>

theorem negative_limit:
  assumes "utf16 ''database'' \<in> FEATURES cfg" "trim sql \<noteq> []"
    "\<not> safety_check (READ_ONLY cfg) sql" "\<not> isExplain sql"
    "connect eng = None" "user_query eng sql = Inr res" "L < 0"
  shows "\<exists>out. fst (sbsh_execute_sql cfg eng (Some sql) (Some L)) = Inr (QueryRows out)
     \<and> out_rows out = slice0 (result_rows res) L
     \<and> out_rows out = take (nat (max 0 (int (length (result_rows res)) + L))) (result_rows res)
     \<and> out_rows out = take (length (result_rows res) - nat (- L)) (result_rows res)
     \<and> int (length (out_rows out)) = max 0 (int (length (result_rows res)) + L)
     \<and> truncated out = (int (length (result_rows res)) > L)
     \<and> truncated out"
  using assms(7) unfolding execute_sql_query [OF assms(1-6)]
  by (auto simp: slice0_def min_def max_def nat_diff_distrib' intro: arg_cong2 [where f = take])

theorem negative_limit_witness:
  "\<exists>out. fst (sbsh_execute_sql default_config (sample_engine [1, 2, 3, 4, 5] [] [] [] [])
       (Some (utf16 ''SELECT * FROM t'')) (Some (- 2))) = Inr (QueryRows out)
     \<and> out_rows out = [1, 2, 3] \<and> truncated out"
proof -
  from negative_limit [OF database_enabled select_all_facts(1) select_all_allowed select_all_facts(3),
      of "sample_engine [1, 2, 3, 4, 5] [] [] [] []"
         "\<lparr>result_rows = [1, 2, 3, 4, 5], result_rowCount = Some 5, result_fields = []\<rparr>"
         "- 2"]
  show ?thesis by (auto simp add: sample_engine_def slice0_def)
qed

section \<open>Feature gating and validation\<close>

lemma message_FeatureDisabled_hd: "hd (message (FeatureDisabled f)) = 70"
  by (simp add: utf16_def)

lemma introspect_data_access_trace:
  "fst (sbsh_introspect_schema cfg eng schemas_arg) = Inl (DataAccess m) \<Longrightarrow>
     snd (sbsh_introspect_schema cfg eng schemas_arg) \<noteq> []"
  by (auto simp: sbsh_introspect_schema_def Let_def split: if_splits option.splits sum.splits)

lemma execute_data_access_trace:
  "fst (sbsh_execute_sql cfg eng sql_arg limit_arg) = Inl (DataAccess m) \<Longrightarrow>
     snd (sbsh_execute_sql cfg eng sql_arg limit_arg) \<noteq> []"
  by (auto simp: sbsh_execute_sql_def Let_def split: if_splits option.splits sum.splits)

lemma postgrest_data_access_trace:
  "fst (sbsh_postgrest_get cfg web table_arg query_arg) = Inl (DataAccess m) \<Longrightarrow>
     snd (sbsh_postgrest_get cfg web table_arg query_arg) \<noteq> []"
  by (auto simp: sbsh_postgrest_get_def Let_def split: if_splits option.splits sum.splits)

lemma table_doc_data_access_trace:
  "fst (sbsh_get_table_doc cfg eng table_arg) = Inl (DataAccess m) \<Longrightarrow>
     snd (sbsh_get_table_doc cfg eng table_arg) \<noteq> []"
  by (auto simp: sbsh_get_table_doc_def Let_def split_beta
      split: if_splits option.splits sum.splits)

lemma select_one_facts:
  "trim (utf16 ''SELECT 1'') \<noteq> []"
  "\<not> safety_check True (utf16 ''SELECT 1'')"
  "\<not> isExplain (utf16 ''SELECT 1'')"
proof -
  show "trim (utf16 ''SELECT 1'') \<noteq> []"
    by (simp add: trim_def utf16_def white_def)
  have "\<not> isMutatingSql (utf16 ''SELECT 1'')" by (simp add: classifier_eval)
  then show "\<not> safety_check True (utf16 ''SELECT 1'')" by (simp add: safety_check_def)
  show "\<not> isExplain (utf16 ''SELECT 1'')" by (simp add: classifier_eval)
qed

text \<open>
  C7, as amended. A tool whose feature is not in the feature set fails with the error named
  after the feature, before anything else happens: no connection is asked for, no statement
  is issued and no request is sent. Its message differs from the messages of the validation
  errors, of the safety denial, of the missing credential and of a failed REST request. An
  error of the data engine carries whatever message the engine gives, which can be the very
  text of the feature error; it is told apart by its origin only: it never arises without
  a connection having been asked for or a request sent.
\<close>

theorem feature_disabled:
  "(utf16 ''database'' \<notin> FEATURES cfg \<longrightarrow>
      sbsh_introspect_schema cfg eng schemas_arg = (Inl (FeatureDisabled (utf16 ''database'')), [])
      \<and> sbsh_execute_sql cfg eng' sql_arg limit_arg = (Inl (FeatureDisabled (utf16 ''database'')), []))
   \<and> (utf16 ''postgrest'' \<notin> FEATURES cfg \<longrightarrow>
      sbsh_postgrest_get cfg web table_arg query_arg = (Inl (FeatureDisabled (utf16 ''postgrest'')), []))
   \<and> (utf16 ''docs'' \<notin> FEATURES cfg \<longrightarrow>
      sbsh_get_table_doc cfg eng'' table_arg' = (Inl (FeatureDisabled (utf16 ''docs'')), []))
   \<and> message (FeatureDisabled f) \<noteq> message SqlRequired
   \<and> message (FeatureDisabled f) \<noteq> message TableRequired
   \<and> message (FeatureDisabled f) \<noteq> message JwtNotConfigured
   \<and> message (FeatureDisabled f) \<noteq> message ReadOnlyBlocked
   \<and> message (FeatureDisabled f) \<noteq> message (PostgrestFailure status body)
   \<and> (fst (sbsh_introspect_schema cfg eng schemas_arg) = Inl (DataAccess m) \<longrightarrow>
        snd (sbsh_introspect_schema cfg eng schemas_arg) \<noteq> [])
   \<and> (fst (sbsh_execute_sql cfg eng' sql_arg limit_arg) = Inl (DataAccess m) \<longrightarrow>
        snd (sbsh_execute_sql cfg eng' sql_arg limit_arg) \<noteq> [])
   \<and> (fst (sbsh_postgrest_get cfg web table_arg query_arg) = Inl (DataAccess m) \<longrightarrow>
        snd (sbsh_postgrest_get cfg web table_arg query_arg) \<noteq> [])
   \<and> (fst (sbsh_get_table_doc cfg eng'' table_arg') = Inl (DataAccess m) \<longrightarrow>
        snd (sbsh_get_table_doc cfg eng'' table_arg') \<noteq> [])"
proof -
  have ne: "message (FeatureDisabled f) \<noteq> m" if "hd m \<noteq> 70" for m
    using that message_FeatureDisabled_hd [of f] by auto
  have m1: "message (FeatureDisabled f) \<noteq> message SqlRequired"
    by (rule ne) (simp add: utf16_def)
  have m2: "message (FeatureDisabled f) \<noteq> message TableRequired"
    by (rule ne) (simp add: utf16_def)
  have m3: "message (FeatureDisabled f) \<noteq> message JwtNotConfigured"
    by (rule ne) (simp add: utf16_def)
  have m4: "message (FeatureDisabled f) \<noteq> message ReadOnlyBlocked"
    by (rule ne) (simp add: utf16_def)
  have m5: "message (FeatureDisabled f) \<noteq> message (PostgrestFailure status body)"
    by (rule ne) (simp add: utf16_def)
  have h1: "sbsh_introspect_schema cfg eng schemas_arg = (Inl (FeatureDisabled (utf16 ''database'')), [])"
    if "utf16 ''database'' \<notin> FEATURES cfg"
    using that by (simp add: sbsh_introspect_schema_def)
  have h2: "sbsh_execute_sql cfg eng' sql_arg limit_arg = (Inl (FeatureDisabled (utf16 ''database'')), [])"
    if "utf16 ''database'' \<notin> FEATURES cfg"
    using that by (simp add: sbsh_execute_sql_def)
  have h3: "sbsh_postgrest_get cfg web table_arg query_arg = (Inl (FeatureDisabled (utf16 ''postgrest'')), [])"
    if "utf16 ''postgrest'' \<notin> FEATURES cfg"
    using that by (simp add: sbsh_postgrest_get_def)
  have h4: "sbsh_get_table_doc cfg eng'' table_arg' = (Inl (FeatureDisabled (utf16 ''docs'')), [])"
    if "utf16 ''docs'' \<notin> FEATURES cfg"
    using that by (simp add: sbsh_get_table_doc_def)
  show ?thesis
    apply (intro conjI impI)
    subgoal by (rule h1)
    subgoal by (rule h2)
    subgoal by (rule h3)
    subgoal by (rule h4)
    subgoal by (rule m1)
    subgoal by (rule m2)
    subgoal by (rule m3)
    subgoal by (rule m4)
    subgoal by (rule m5)
    subgoal by (rule introspect_data_access_trace)
    subgoal by (rule execute_data_access_trace)
    subgoal by (rule postgrest_data_access_trace)
    subgoal by (rule table_doc_data_access_trace)
    done
qed

theorem feature_disabled_witness:
  "sbsh_execute_sql (default_config\<lparr>FEATURES := {utf16 ''docs''}\<rparr>) (sample_engine [] [] [] [] [])
      (Some (utf16 ''SELECT 1'')) None = (Inl (FeatureDisabled (utf16 ''database'')), [])
   \<and> sbsh_introspect_schema (default_config\<lparr>FEATURES := {utf16 ''docs''}\<rparr>)
        (sample_engine [] [] [] [] []) SchemasAbsent = (Inl (FeatureDisabled (utf16 ''database'')), [])
   \<and> message (FeatureDisabled (utf16 ''database'')) = utf16 ''Feature \"database\" is disabled''"
proof -
  have "utf16 ''database'' \<notin> FEATURES (default_config\<lparr>FEATURES := {utf16 ''docs''}\<rparr>)"
    by (simp add: utf16_def)
  then show ?thesis
    using feature_disabled [of "default_config\<lparr>FEATURES := {utf16 ''docs''}\<rparr>"
        "sample_engine [] [] [] [] []" SchemasAbsent "sample_engine [] [] [] [] []"
        "Some (utf16 ''SELECT 1'')" None, THEN conjunct1]
    by (simp add: utf16_def)
qed

theorem feature_disabled_counterexample:
  "sbsh_execute_sql (default_config\<lparr>FEATURES := {utf16 ''docs''}\<rparr>) spoof_engine
      (Some (utf16 ''SELECT 1'')) None = (Inl (FeatureDisabled (utf16 ''database'')), [])
   \<and> sbsh_execute_sql default_config spoof_engine (Some (utf16 ''SELECT 1'')) None =
       (Inl (DataAccess (utf16 ''Feature \"database\" is disabled'')),
        [Connect, Issue (UserSql (utf16 ''SELECT 1'')), Release])
   \<and> message (FeatureDisabled (utf16 ''database'')) =
       message (DataAccess (utf16 ''Feature \"database\" is disabled''))"
proof -
  have a: "sbsh_execute_sql (default_config\<lparr>FEATURES := {utf16 ''docs''}\<rparr>) spoof_engine
      (Some (utf16 ''SELECT 1'')) None = (Inl (FeatureDisabled (utf16 ''database'')), [])"
    by (simp add: sbsh_execute_sql_def utf16_def)
  have b: "sbsh_execute_sql default_config spoof_engine (Some (utf16 ''SELECT 1'')) None =
       (Inl (DataAccess (utf16 ''Feature \"database\" is disabled'')),
        [Connect, Issue (UserSql (utf16 ''SELECT 1'')), Release])"
    using select_one_facts
    by (simp add: sbsh_execute_sql_def Let_def default_config_def spoof_engine_def
        sample_engine_def)
  have c: "message (FeatureDisabled (utf16 ''database'')) =
       message (DataAccess (utf16 ''Feature \"database\" is disabled''))"
    by (simp add: utf16_def)
  from a b c show ?thesis by (intro conjI)
qed

text \<open>
  C8, as amended. When the feature of the tool is enabled, a call of execute-sql whose sql
  argument is missing, empty or made of white space only fails with the validation error of
  execute-sql, and a call of the table document whose table argument is missing or empty
  fails with the validation error of the table document; in both cases nothing reaches the
  engine.
\<close>

theorem validation_errors:
  "(utf16 ''database'' \<in> FEATURES cfg
      \<and> (sql_arg = None \<or> sql_arg = Some [] \<or> (\<exists>s. sql_arg = Some s \<and> trim s = [])) \<longrightarrow>
      sbsh_execute_sql cfg eng sql_arg limit_arg = (Inl SqlRequired, []))
   \<and> (utf16 ''docs'' \<in> FEATURES cfg \<and> (table_arg = None \<or> table_arg = Some []) \<longrightarrow>
      sbsh_get_table_doc cfg eng' table_arg = (Inl TableRequired, []))"
  by (auto simp: sbsh_execute_sql_def sbsh_get_table_doc_def utf16_def trim_def)

theorem validation_errors_witness:
  "sbsh_execute_sql default_config (sample_engine [] [] [] [] []) (Some (utf16 ''  '')) None
     = (Inl SqlRequired, [])
   \<and> sbsh_get_table_doc default_config (sample_engine [] [] [] [] []) None = (Inl TableRequired, [])"
proof -
  have "utf16 ''database'' \<in> FEATURES default_config" "utf16 ''docs'' \<in> FEATURES default_config"
    by (simp_all add: default_config_def)
  moreover have "trim (utf16 ''  '') = []"
    by (simp add: trim_def utf16_def white_def)
  ultimately show ?thesis
    using validation_errors [of default_config "Some (utf16 ''  '')" "sample_engine [] [] [] [] []"
        None None "sample_engine [] [] [] [] []"]
    by simp
qed

theorem validation_errors_counterexample:
  "sbsh_execute_sql (default_config\<lparr>FEATURES := {utf16 []}\<rparr>) (sample_engine [] [] [] [] []) None None
     = (Inl (FeatureDisabled (utf16 ''database'')), [])
   \<and> FeatureDisabled (utf16 ''database'') \<noteq> SqlRequired
   \<and> sbsh_get_table_doc (default_config\<lparr>FEATURES := {utf16 []}\<rparr>) (sample_engine [] [] [] [] []) None
     = (Inl (FeatureDisabled (utf16 ''docs'')), [])
   \<and> FeatureDisabled (utf16 ''docs'') \<noteq> TableRequired"
  by (simp add: sbsh_execute_sql_def sbsh_get_table_doc_def utf16_def)

section \<open>Table names\<close>

lemma split_not_Nil: "split sep s \<noteq> []"
  by (induction s) (auto split: list.splits)

lemma hd_split: "hd (split sep s) = takeWhile (\<lambda>c. c \<noteq> sep) s"
proof (induction s)
  case Nil
  then show ?case by simp
next
  case (Cons c s)
  then show ?case using split_not_Nil [of sep s] by (auto split: list.splits)
qed

lemma split_at_first:
  "sep \<in> set s \<Longrightarrow>
     split sep s = takeWhile (\<lambda>c. c \<noteq> sep) s # split sep (tl (dropWhile (\<lambda>c. c \<noteq> sep) s))"
proof (induction s)
  case Nil
  then show ?case by simp
next
  case (Cons c s)
  show ?case
  proof (cases "c = sep")
    case True
    then show ?thesis by simp
  next
    case False
    with Cons.prems have "sep \<in> set s" by simp
    from Cons.IH [OF this] False show ?thesis by simp
  qed
qed

lemma destructure2_split:
  "sep \<in> set s \<Longrightarrow>
     destructure2 (split sep s) =
       (Some (takeWhile (\<lambda>c. c \<noteq> sep) s),
        Some (takeWhile (\<lambda>c. c \<noteq> sep) (tl (dropWhile (\<lambda>c. c \<noteq> sep) s))))"
proof -
  assume a: "sep \<in> set s"
  let ?rest = "tl (dropWhile (\<lambda>c. c \<noteq> sep) s)"
  obtain b more where b: "split sep ?rest = b # more"
    using split_not_Nil [of sep ?rest] by (cases "split sep ?rest") auto
  then have "b = takeWhile (\<lambda>c. c \<noteq> sep) ?rest"
    using hd_split [of sep ?rest] by simp
  then show ?thesis
    using split_at_first [OF a] b by simp
qed

text \<open>
  C5, as amended. A table name with a dot resolves to the text before its first dot as the
  schema and the text between its first dot and its second dot, or its end when it has one
  dot only, as the table; with exactly one dot the table is everything after the dot. A name
  without a dot resolves to the schema public and the name itself, so users resolves to
  public.users. The pair goes to the first statement as it is, with no check of the
  identifiers.
\<close>

theorem resolve_table_parts:
  "(46 \<in> set T \<longrightarrow>
      resolve_table T =
        (Some (takeWhile (\<lambda>c. c \<noteq> 46) T),
         Some (takeWhile (\<lambda>c. c \<noteq> 46) (tl (dropWhile (\<lambda>c. c \<noteq> 46) T)))))
   \<and> (46 \<in> set T \<and> 46 \<notin> set (tl (dropWhile (\<lambda>c. c \<noteq> 46) T)) \<longrightarrow>
      snd (resolve_table T) = Some (tl (dropWhile (\<lambda>c. c \<noteq> 46) T)))
   \<and> (46 \<notin> set T \<longrightarrow> resolve_table T = (Some (utf16 ''public''), Some T))
   \<and> resolve_table (utf16 ''users'') = (Some (utf16 ''public''), Some (utf16 ''users''))
   \<and> (utf16 ''docs'' \<in> FEATURES cfg \<and> T \<noteq> [] \<and> connect eng = None \<longrightarrow>
      take 2 (snd (sbsh_get_table_doc cfg eng (Some T))) =
        [Connect, Issue (DocColumns (fst (resolve_table T)) (snd (resolve_table T)))])"
proof -
  have a: "resolve_table T =
        (Some (takeWhile (\<lambda>c. c \<noteq> 46) T),
         Some (takeWhile (\<lambda>c. c \<noteq> 46) (tl (dropWhile (\<lambda>c. c \<noteq> 46) T))))"
    if "46 \<in> set T"
    using that by (simp add: resolve_table_def destructure2_split)
  have b: "snd (resolve_table T) = Some (tl (dropWhile (\<lambda>c. c \<noteq> 46) T))"
    if "46 \<in> set T" "46 \<notin> set (tl (dropWhile (\<lambda>c. c \<noteq> 46) T))"
  proof -
    have t: "takeWhile (\<lambda>c. c \<noteq> 46) (tl (dropWhile (\<lambda>c. c \<noteq> 46) T)) = tl (dropWhile (\<lambda>c. c \<noteq> 46) T)"
      using that(2) by (auto simp: takeWhile_eq_all_conv)
    show ?thesis by (simp only: a [OF that(1)] snd_conv t)
  qed
  have c: "resolve_table T = (Some (utf16 ''public''), Some T)" if "46 \<notin> set T"
    using that by (simp add: resolve_table_def)
  have d: "resolve_table (utf16 ''users'') = (Some (utf16 ''public''), Some (utf16 ''users''))"
    by (simp add: resolve_table_def utf16_def)
  have e: "take 2 (snd (sbsh_get_table_doc cfg eng (Some T))) =
        [Connect, Issue (DocColumns (fst (resolve_table T)) (snd (resolve_table T)))]"
    if "utf16 ''docs'' \<in> FEATURES cfg" "T \<noteq> []" "connect eng = None"
    using that
    by (simp add: sbsh_get_table_doc_def Let_def split_beta split: sum.splits)
  show ?thesis
    apply (intro conjI impI)
    subgoal by (rule a)
    subgoal by (rule b) simp_all
    subgoal by (rule c)
    subgoal by (rule d)
    subgoal by (rule e) simp_all
    done
qed

theorem resolve_table_parts_witness:
  "resolve_table (utf16 ''auth.users'') = (Some (utf16 ''auth''), Some (utf16 ''users''))
   \<and> take 2 (snd (sbsh_get_table_doc default_config (sample_engine [] [] [] [] [])
        (Some (utf16 ''auth.users'')))) =
      [Connect, Issue (DocColumns (Some (utf16 ''auth'')) (Some (utf16 ''users'')))]"
proof -
  have "46 \<in> set (utf16 ''auth.users'')" by (simp add: utf16_def)
  moreover have "utf16 ''docs'' \<in> FEATURES default_config \<and> utf16 ''auth.users'' \<noteq> []
      \<and> connect (sample_engine [] [] [] [] []) = None"
    by (simp add: default_config_def sample_engine_def utf16_def)
  ultimately show ?thesis
    using resolve_table_parts [of "utf16 ''auth.users''" default_config "sample_engine [] [] [] [] []"]
    by (simp add: utf16_def)
qed

theorem resolve_table_counterexample:
  "resolve_table (utf16 ''a.b.c'') = (Some (utf16 ''a''), Some (utf16 ''b''))
   \<and> tl (dropWhile (\<lambda>c. c \<noteq> 46) (utf16 ''a.b.c'')) = utf16 ''b.c''
   \<and> utf16 ''b'' \<noteq> utf16 ''b.c''"
  by (simp add: resolve_table_def utf16_def)

section \<open>The summary map and the digest\<close>

lemma map_fst_modify [simp]: "map fst (modify key f m) = map fst m"
  by (induction m) (auto simp: modify_def)

lemma map_of_modify:
  "map_of (modify key f m) k = (if k = key then map_option f (map_of m k) else map_of m k)"
  by (induction m) (auto simp: modify_def)

lemma keyed_modify:
  assumes "keyed m" "\<And>e. t_schema (f e) = t_schema e" "\<And>e. t_table (f e) = t_table e"
  shows "keyed (modify key f m)"
proof -
  have "list_all (\<lambda>(k, e). k = table_key (t_schema e) (t_table e)) (modify key f m)"
    using assms by (auto simp: keyed_def list_all_iff modify_def split: if_splits)
  then show ?thesis using assms(1) by (simp add: keyed_def)
qed

lemma map_fst_add_column:
  "map fst (add_column m r) =
     (if col_key r \<in> fst ` set m then map fst m else map fst m @ [col_key r])"
  by (auto simp: add_column_def Let_def col_key_def map_of_eq_None_iff split: option.splits)
     (metis domI domIff map_of_eq_None_iff)

lemma keyed_add_column: "keyed m \<Longrightarrow> keyed (add_column m r)"
proof -
  assume k: "keyed m"
  let ?key = "table_key (table_schema r) (table_name r)"
  let ?fresh = "\<lparr>t_schema = table_schema r, t_table = table_name r, t_columns = [],
      t_indexes = [], t_constraints = [], t_rls = []\<rparr>"
  have "keyed (case map_of m ?key of None \<Rightarrow> m @ [(?key, ?fresh)] | Some e \<Rightarrow> m)"
    using k by (auto simp: keyed_def map_of_eq_None_iff split: option.splits)
  then show ?thesis
    unfolding add_column_def Let_def by (rule keyed_modify) simp_all
qed

lemma keyed_add_index: "keyed m \<Longrightarrow> keyed (add_index m i)"
  unfolding add_index_def Let_def by (auto split: option.splits intro: keyed_modify)

lemma keyed_add_constraint: "keyed m \<Longrightarrow> keyed (add_constraint m c)"
  unfolding add_constraint_def Let_def by (auto split: option.splits intro: keyed_modify)

lemma keyed_add_policy: "keyed m \<Longrightarrow> keyed (add_policy m p)"
  unfolding add_policy_def Let_def by (auto split: option.splits intro: keyed_modify)

lemma map_fst_add_index [simp]: "map fst (add_index m i) = map fst m"
  by (simp add: add_index_def Let_def split: option.splits)

lemma map_fst_add_constraint [simp]: "map fst (add_constraint m c) = map fst m"
  by (simp add: add_constraint_def Let_def split: option.splits)

lemma map_fst_add_policy [simp]: "map fst (add_policy m p) = map fst m"
  by (simp add: add_policy_def Let_def split: option.splits)

lemma keyed_foldl:
  assumes "\<And>m x. keyed m \<Longrightarrow> keyed (f m x)"
  shows "keyed m \<Longrightarrow> keyed (foldl f m xs)"
  by (induction xs arbitrary: m) (simp_all add: assms)

lemma map_fst_foldl:
  assumes "\<And>m x. map fst (f m x) = map fst m"
  shows "map fst (foldl f m xs) = map fst m"
  by (induction xs arbitrary: m) (simp_all add: assms)

lemma set_keys_add_column:
  "set (map fst (add_column m r)) = insert (col_key r) (set (map fst m))"
  by (auto simp: map_fst_add_column)

lemma set_keys_columns:
  "set (map fst (foldl add_column m rows)) = set (map fst m) \<union> col_key ` set rows"
proof (induction rows arbitrary: m)
  case Nil
  then show ?case by simp
next
  case (Cons r rows)
  show ?case
    unfolding foldl_Cons Cons.IH set_keys_add_column by auto
qed

lemma keyed_build_map: "keyed (build_map cols idx cons rls)"
  unfolding build_map_def
  by (intro keyed_foldl keyed_add_column keyed_add_index keyed_add_constraint keyed_add_policy)
     (simp_all add: keyed_def)

lemma keys_build_map:
  "set (map fst (build_map cols idx cons rls)) = col_key ` set cols"
  unfolding build_map_def
  using set_keys_columns [of "[]" cols]
  by (simp add: map_fst_foldl [of add_policy] map_fst_foldl [of add_constraint]
      map_fst_foldl [of add_index])


lemma map_of_add_index:
  "map_of (add_index m i) k =
     (if k = idx_key i
      then map_option (\<lambda>e. e\<lparr>t_indexes := t_indexes e @ [index_of i]\<rparr>) (map_of m k)
      else map_of m k)"
  by (auto simp: add_index_def Let_def idx_key_def index_of_def map_of_modify split: option.splits)

lemma map_of_add_constraint:
  "map_of (add_constraint m c) k =
     (if k = con_key c
      then map_option (\<lambda>e. e\<lparr>t_constraints := t_constraints e @ [constraint_of c]\<rparr>) (map_of m k)
      else map_of m k)"
  by (auto simp: add_constraint_def Let_def con_key_def constraint_of_def map_of_modify
      split: option.splits)

lemma map_of_add_policy:
  "map_of (add_policy m p) k =
     (if k = pol_key p
      then map_option (\<lambda>e. e\<lparr>t_rls := t_rls e @ [policy_of p]\<rparr>) (map_of m k)
      else map_of m k)"
  by (auto simp: add_policy_def Let_def pol_key_def policy_of_def map_of_modify split: option.splits)

lemma map_of_add_column:
  "map_of (add_column m r) k =
     (if k = col_key r
      then Some ((case map_of m k of
                    None \<Rightarrow> \<lparr>t_schema = table_schema r, t_table = table_name r, t_columns = [],
                              t_indexes = [], t_constraints = [], t_rls = []\<rparr>
                  | Some e \<Rightarrow> e)\<lparr>t_columns :=
              t_columns (case map_of m k of
                    None \<Rightarrow> \<lparr>t_schema = table_schema r, t_table = table_name r, t_columns = [],
                              t_indexes = [], t_constraints = [], t_rls = []\<rparr>
                  | Some e \<Rightarrow> e) @ [column_of r]\<rparr>)
      else map_of m k)"
  by (auto simp: add_column_def Let_def col_key_def column_of_def map_of_modify map_add_def
      split: option.splits)

lemma map_of_Some_iff_key: "(map_of m k \<noteq> None) = (k \<in> fst ` set m)"
  by (simp add: map_of_eq_None_iff)

lemma at_add_column:
  "at t_columns (add_column m r) k =
     at t_columns m k @ (if col_key r = k then [column_of r] else [])"
  "at t_indexes (add_column m r) k = at t_indexes m k"
  "at t_constraints (add_column m r) k = at t_constraints m k"
  "at t_rls (add_column m r) k = at t_rls m k"
  by (auto simp: at_def map_of_add_column split: option.splits)

lemma at_add_index:
  "at t_indexes (add_index m i) k =
     at t_indexes m k @ (if idx_key i = k \<and> k \<in> fst ` set m then [index_of i] else [])"
  "at t_columns (add_index m i) k = at t_columns m k"
  "at t_constraints (add_index m i) k = at t_constraints m k"
  "at t_rls (add_index m i) k = at t_rls m k"
  by (auto simp: at_def map_of_add_index map_of_Some_iff_key [symmetric] split: option.splits)

lemma at_add_constraint:
  "at t_constraints (add_constraint m c) k =
     at t_constraints m k @ (if con_key c = k \<and> k \<in> fst ` set m then [constraint_of c] else [])"
  "at t_columns (add_constraint m c) k = at t_columns m k"
  "at t_indexes (add_constraint m c) k = at t_indexes m k"
  "at t_rls (add_constraint m c) k = at t_rls m k"
  by (auto simp: at_def map_of_add_constraint map_of_Some_iff_key [symmetric] split: option.splits)

lemma at_add_policy:
  "at t_rls (add_policy m p) k =
     at t_rls m k @ (if pol_key p = k \<and> k \<in> fst ` set m then [policy_of p] else [])"
  "at t_columns (add_policy m p) k = at t_columns m k"
  "at t_indexes (add_policy m p) k = at t_indexes m k"
  "at t_constraints (add_policy m p) k = at t_constraints m k"
  by (auto simp: at_def map_of_add_policy map_of_Some_iff_key [symmetric] split: option.splits)

lemma at_foldl_same:
  assumes "\<And>m x. at sel (f m x) k = at sel m k"
  shows "at sel (foldl f m xs) k = at sel m k"
  by (induction xs arbitrary: m) (simp_all add: assms)

lemma at_foldl_attach:
  assumes step: "\<And>m x. at sel (f m x) k =
      at sel m k @ (if key x = k \<and> k \<in> fst ` set m then [g x] else [])"
    and keys: "\<And>m x. map fst (f m x) = map fst m"
  shows "at sel (foldl f m xs) k =
     at sel m k @ (if k \<in> fst ` set m then map g (filter (\<lambda>x. key x = k) xs) else [])"
proof (induction xs arbitrary: m)
  case Nil
  then show ?case by simp
next
  case (Cons x xs)
  have "fst ` set (f m x) = fst ` set m"
    using keys [of m x] by (metis set_map)
  then show ?case
    by (simp add: Cons.IH step)
qed

lemma at_columns_foldl:
  "at t_columns (foldl add_column m rows) k =
     at t_columns m k @ map column_of (filter (\<lambda>r. col_key r = k) rows)"
  by (induction rows arbitrary: m) (simp_all add: at_add_column)

lemma at_build_map:
  "at t_columns (build_map cols idx cons rls) k = map column_of (filter (\<lambda>r. col_key r = k) cols)"
  "at t_indexes (build_map cols idx cons rls) k =
     (if k \<in> col_key ` set cols then map index_of (filter (\<lambda>i. idx_key i = k) idx) else [])"
  "at t_constraints (build_map cols idx cons rls) k =
     (if k \<in> col_key ` set cols then map constraint_of (filter (\<lambda>c. con_key c = k) cons) else [])"
  "at t_rls (build_map cols idx cons rls) k =
     (if k \<in> col_key ` set cols then map policy_of (filter (\<lambda>p. pol_key p = k) rls) else [])"
proof -
  let ?m1 = "foldl add_column [] cols"
  let ?m2 = "foldl add_index ?m1 idx"
  let ?m3 = "foldl add_constraint ?m2 cons"
  have k1: "fst ` set ?m1 = col_key ` set cols"
    using set_keys_columns [of "[]" cols] by simp
  have k2: "fst ` set ?m2 = col_key ` set cols"
    using k1 map_fst_foldl [of add_index ?m1 idx] by (metis map_fst_add_index set_map)
  have k3: "fst ` set ?m3 = col_key ` set cols"
    using k2 map_fst_foldl [of add_constraint ?m2 cons] by (metis map_fst_add_constraint set_map)
  have e: "at sel [] k = []" for sel :: "table_entry \<Rightarrow> 'b list"
    by (simp add: at_def)
  show "at t_columns (build_map cols idx cons rls) k = map column_of (filter (\<lambda>r. col_key r = k) cols)"
    unfolding build_map_def
    by (simp add: at_foldl_same [of t_columns add_policy] at_foldl_same [of t_columns add_constraint]
        at_foldl_same [of t_columns add_index] at_add_policy at_add_constraint at_add_index
        at_columns_foldl e)
  have i1: "at t_indexes ?m1 k = []"
    by (simp add: at_foldl_same [of t_indexes add_column] at_add_column e)
  show "at t_indexes (build_map cols idx cons rls) k =
     (if k \<in> col_key ` set cols then map index_of (filter (\<lambda>i. idx_key i = k) idx) else [])"
    unfolding build_map_def
    by (simp add: at_foldl_same [of t_indexes add_policy] at_foldl_same [of t_indexes add_constraint]
        at_add_policy at_add_constraint
        at_foldl_attach [of t_indexes add_index k idx_key index_of, OF at_add_index(1) map_fst_add_index]
        i1 k1)
  have c2: "at t_constraints ?m2 k = []"
    by (simp add: at_foldl_same [of t_constraints add_column] at_foldl_same [of t_constraints add_index]
        at_add_column at_add_index e)
  show "at t_constraints (build_map cols idx cons rls) k =
     (if k \<in> col_key ` set cols then map constraint_of (filter (\<lambda>c. con_key c = k) cons) else [])"
    unfolding build_map_def
    by (simp add: at_foldl_same [of t_constraints add_policy] at_add_policy
        at_foldl_attach [of t_constraints add_constraint k con_key constraint_of,
          OF at_add_constraint(1) map_fst_add_constraint]
        c2 k2)
  have r3: "at t_rls ?m3 k = []"
    by (simp add: at_foldl_same [of t_rls add_column] at_foldl_same [of t_rls add_index]
        at_foldl_same [of t_rls add_constraint] at_add_column at_add_index at_add_constraint e)
  show "at t_rls (build_map cols idx cons rls) k =
     (if k \<in> col_key ` set cols then map policy_of (filter (\<lambda>p. pol_key p = k) rls) else [])"
    unfolding build_map_def
    by (simp add: at_foldl_attach [of t_rls add_policy k pol_key policy_of,
          OF at_add_policy(1) map_fst_add_policy]
        r3 k3)
qed


lemma introspect_ok:
  assumes "utf16 ''database'' \<in> FEATURES cfg" "connect eng = None"
    "digest_columns eng (effective_schemas arg) = Inr cols"
    "digest_indexes eng (effective_schemas arg) = Inr idx"
    "digest_constraints eng (effective_schemas arg) = Inr cons"
    "digest_policies eng (effective_schemas arg) = Inr rls"
  shows "sbsh_introspect_schema cfg eng arg =
     (Inr \<lparr>digest = map (render_entry \<circ> snd) (build_map cols idx cons rls),
           table_count = length (build_map cols idx cons rls),
           d_note = utf16 ''Use sbsh_get_table_doc for detailed column info''\<rparr>,
      [Connect, Issue (DigestColumns (effective_schemas arg)),
       Issue (DigestIndexes (effective_schemas arg)),
       Issue (DigestConstraints (effective_schemas arg)),
       Issue (DigestPolicies (effective_schemas arg)), Release])"
  using assms by (simp add: sbsh_introspect_schema_def Let_def)

lemma keyed_entry:
  assumes "keyed m" "(k, e) \<in> set m"
  shows "k = table_key (t_schema e) (t_table e)" "map_of m k = Some e"
  using assms by (auto simp: keyed_def list_all_iff)

lemma entry_key_render: "entry_key (render_entry e) = table_key (t_schema e) (t_table e)"
  by (simp add: entry_key_def render_entry_def)

lemma digest_keys:
  "keyed m \<Longrightarrow> map entry_key (map (render_entry \<circ> snd) m) = map fst m"
  by (induction m) (auto simp: keyed_def entry_key_render)

lemma digest_entry_content:
  assumes "d \<in> set (map (render_entry \<circ> snd) (build_map cols idx cons rls))"
  shows "entry_key d \<in> col_key ` set cols"
    and "d_cols d = map (render_column \<circ> column_of) (filter (\<lambda>r. col_key r = entry_key d) cols)"
    and "idx_count d = length (filter (\<lambda>i. idx_key i = entry_key d) idx)"
    and "cons_count d = length (filter (\<lambda>c. con_key c = entry_key d) cons)"
    and "d_rls d = (0 < length (filter (\<lambda>p. pol_key p = entry_key d) rls))"
proof -
  let ?bm = "build_map cols idx cons rls"
  from assms obtain k e where ke: "(k, e) \<in> set ?bm" "d = render_entry e" by auto
  have k: "entry_key d = k" "map_of ?bm k = Some e"
    using keyed_entry [OF keyed_build_map ke(1)] ke(2) by (simp_all add: entry_key_render)
  have "k \<in> set (map fst ?bm)" using ke(1) by force
  then have kin: "k \<in> col_key ` set cols"
    using keys_build_map [of cols idx cons rls] by simp
  then show "entry_key d \<in> col_key ` set cols" by (simp only: k(1))
  have sel: "at sel ?bm k = sel e" for sel :: "table_entry \<Rightarrow> 'b list"
    using k(2) by (simp add: at_def)
  have tc: "t_columns e = map column_of (filter (\<lambda>r. col_key r = k) cols)"
    using sel [of t_columns] at_build_map(1) [of cols idx cons rls k] by simp
  have ti: "t_indexes e = map index_of (filter (\<lambda>i. idx_key i = k) idx)"
    using sel [of t_indexes] at_build_map(2) [of cols idx cons rls k] kin by simp
  have tn: "t_constraints e = map constraint_of (filter (\<lambda>c. con_key c = k) cons)"
    using sel [of t_constraints] at_build_map(3) [of cols idx cons rls k] kin by simp
  have tr: "t_rls e = map policy_of (filter (\<lambda>p. pol_key p = k) rls)"
    using sel [of t_rls] at_build_map(4) [of cols idx cons rls k] kin by simp
  have dc: "d_cols d = map render_column (t_columns e)" "idx_count d = length (t_indexes e)"
    "cons_count d = length (t_constraints e)" "d_rls d = (0 < length (t_rls e))"
    using ke(2) by (simp_all add: render_entry_def)
  show "d_cols d = map (render_column \<circ> column_of) (filter (\<lambda>r. col_key r = entry_key d) cols)"
    unfolding k(1) dc(1) tc by simp
  show "idx_count d = length (filter (\<lambda>i. idx_key i = entry_key d) idx)"
    unfolding k(1) dc(2) ti by simp
  show "cons_count d = length (filter (\<lambda>c. con_key c = entry_key d) cons)"
    unfolding k(1) dc(3) tn by simp
  show "d_rls d = (0 < length (filter (\<lambda>p. pol_key p = entry_key d) rls))"
    unfolding k(1) dc(4) tr by simp
qed

lemma foldl_skip_orphans:
  assumes skip: "\<And>m x. key x \<notin> fst ` set m \<Longrightarrow> f m x = m"
    and keys: "\<And>m x. map fst (f m x) = map fst m"
  shows "foldl f m xs = foldl f m (filter (\<lambda>x. key x \<in> fst ` set m) xs)"
proof (induction xs arbitrary: m)
  case Nil
  then show ?case by simp
next
  case (Cons x xs)
  have same: "fst ` set (f m x) = fst ` set m"
    using keys [of m x] by (metis set_map)
  show ?case
  proof (cases "key x \<in> fst ` set m")
    case True
    then show ?thesis using Cons.IH [of "f m x"] same by simp
  next
    case False
    then show ?thesis using Cons.IH [of m] skip by simp
  qed
qed

lemma add_index_orphan: "idx_key i \<notin> fst ` set m \<Longrightarrow> add_index m i = m"
  by (simp add: add_index_def Let_def idx_key_def map_of_eq_None_iff [THEN iffD2])

lemma add_constraint_orphan: "con_key c \<notin> fst ` set m \<Longrightarrow> add_constraint m c = m"
  by (simp add: add_constraint_def Let_def con_key_def map_of_eq_None_iff [THEN iffD2])

lemma add_policy_orphan: "pol_key p \<notin> fst ` set m \<Longrightarrow> add_policy m p = m"
  by (simp add: add_policy_def Let_def pol_key_def map_of_eq_None_iff [THEN iffD2])

lemma build_map_without_orphans:
  "build_map cols idx cons rls =
     build_map cols (filter (\<lambda>i. idx_key i \<in> col_key ` set cols) idx)
       (filter (\<lambda>c. con_key c \<in> col_key ` set cols) cons)
       (filter (\<lambda>p. pol_key p \<in> col_key ` set cols) rls)"
proof -
  let ?K = "col_key ` set cols"
  let ?m1 = "foldl add_column [] cols"
  let ?m2 = "foldl add_index ?m1 idx"
  let ?m3 = "foldl add_constraint ?m2 cons"
  have k1: "fst ` set ?m1 = ?K"
    using set_keys_columns [of "[]" cols] by simp
  have k2: "fst ` set ?m2 = ?K"
    using k1 map_fst_foldl [of add_index ?m1 idx] by (metis map_fst_add_index set_map)
  have k3: "fst ` set ?m3 = ?K"
    using k2 map_fst_foldl [of add_constraint ?m2 cons] by (metis map_fst_add_constraint set_map)
  have a: "?m2 = foldl add_index ?m1 (filter (\<lambda>i. idx_key i \<in> ?K) idx)"
    using foldl_skip_orphans [of idx_key add_index ?m1 idx, OF add_index_orphan map_fst_add_index]
    by (simp add: k1)
  have b: "?m3 = foldl add_constraint ?m2 (filter (\<lambda>c. con_key c \<in> ?K) cons)"
    using foldl_skip_orphans [of con_key add_constraint ?m2 cons,
        OF add_constraint_orphan map_fst_add_constraint]
    by (simp add: k2)
  have c: "foldl add_policy ?m3 rls = foldl add_policy ?m3 (filter (\<lambda>p. pol_key p \<in> ?K) rls)"
    using foldl_skip_orphans [of pol_key add_policy ?m3 rls, OF add_policy_orphan map_fst_add_policy]
    by (simp add: k3)
  show ?thesis
    unfolding build_map_def using a b c by simp
qed


lemma users_engine_answers:
  "utf16 ''database'' \<in> FEATURES default_config"
  "connect users_engine = None"
  "digest_columns users_engine (effective_schemas (SchemasArray [utf16 ''public''])) = Inr users_columns"
  "digest_indexes users_engine (effective_schemas (SchemasArray [utf16 ''public''])) = Inr []"
  "digest_constraints users_engine (effective_schemas (SchemasArray [utf16 ''public''])) = Inr users_constraints"
  "digest_policies users_engine (effective_schemas (SchemasArray [utf16 ''public''])) = Inr users_policies"
  by (simp_all add: default_config_def users_engine_def sample_engine_def users_columns_def
      users_constraints_def users_policies_def)

lemma users_map:
  "build_map users_columns [] users_constraints users_policies =
     [(utf16 ''public.users'',
       \<lparr>t_schema = utf16 ''public'', t_table = utf16 ''users'',
        t_columns = [\<lparr>col_name = utf16 ''id'', col_type = utf16 ''uuid'', nullable = False\<rparr>,
                     \<lparr>col_name = utf16 ''email'', col_type = utf16 ''text'', nullable = True\<rparr>],
        t_indexes = [],
        t_constraints = [\<lparr>cons_name = utf16 ''users_pkey'', cons_type = utf16 ''p''\<rparr>],
        t_rls = [\<lparr>rls_name = utf16 ''own_rows'', rls_cmd = utf16 ''r''\<rparr>]\<rparr>)]"
  by (simp add: build_map_def add_column_def add_constraint_def add_policy_def modify_def
      table_key_def users_columns_def users_constraints_def users_policies_def utf16_def)

text \<open>
  C4. When the four catalog statements succeed, the digest has exactly one entry for each
  distinct key schema.table among the rows of the columns result, and table_count counts
  these keys. Rows of the index, constraint and policy results whose key is not among them
  leave no trace: the handler returns the same result, not an error, as it does when these
  rows are removed from the three results.
\<close>

theorem digest_tables:
  assumes "utf16 ''database'' \<in> FEATURES cfg" "connect eng = None"
    "digest_columns eng (effective_schemas arg) = Inr cols"
    "digest_indexes eng (effective_schemas arg) = Inr idx"
    "digest_constraints eng (effective_schemas arg) = Inr cons"
    "digest_policies eng (effective_schemas arg) = Inr rls"
  shows "\<exists>out. fst (sbsh_introspect_schema cfg eng arg) = Inr out
     \<and> distinct (map entry_key (digest out))
     \<and> set (map entry_key (digest out)) = col_key ` set cols
     \<and> table_count out = card (col_key ` set cols)
     \<and> fst (sbsh_introspect_schema cfg
          (eng\<lparr>digest_indexes := \<lambda>ss. Inr (filter (\<lambda>i. idx_key i \<in> col_key ` set cols) idx),
               digest_constraints := \<lambda>ss. Inr (filter (\<lambda>c. con_key c \<in> col_key ` set cols) cons),
               digest_policies := \<lambda>ss. Inr (filter (\<lambda>p. pol_key p \<in> col_key ` set cols) rls)\<rparr>)
          arg) = Inr out"
proof -
  let ?bm = "build_map cols idx cons rls"
  let ?out = "\<lparr>digest = map (render_entry \<circ> snd) ?bm, table_count = length ?bm,
      d_note = utf16 ''Use sbsh_get_table_doc for detailed column info''\<rparr>"
  let ?eng = "eng\<lparr>digest_indexes := \<lambda>ss. Inr (filter (\<lambda>i. idx_key i \<in> col_key ` set cols) idx),
      digest_constraints := \<lambda>ss. Inr (filter (\<lambda>c. con_key c \<in> col_key ` set cols) cons),
      digest_policies := \<lambda>ss. Inr (filter (\<lambda>p. pol_key p \<in> col_key ` set cols) rls)\<rparr>"
  have r: "fst (sbsh_introspect_schema cfg eng arg) = Inr ?out"
    by (simp add: introspect_ok [OF assms])
  have keys: "map entry_key (digest ?out) = map fst ?bm"
    using digest_keys [OF keyed_build_map, of cols idx cons rls] by simp
  have d: "distinct (map fst ?bm)"
    using keyed_build_map [of cols idx cons rls] by (simp add: keyed_def)
  have s: "set (map fst ?bm) = col_key ` set cols"
    by (rule keys_build_map)
  have c: "table_count ?out = card (col_key ` set cols)"
    using distinct_card [OF d] s by simp
  have "fst (sbsh_introspect_schema cfg ?eng arg) =
      Inr \<lparr>digest = map (render_entry \<circ> snd)
              (build_map cols (filter (\<lambda>i. idx_key i \<in> col_key ` set cols) idx)
                 (filter (\<lambda>c. con_key c \<in> col_key ` set cols) cons)
                 (filter (\<lambda>p. pol_key p \<in> col_key ` set cols) rls)),
            table_count = length
              (build_map cols (filter (\<lambda>i. idx_key i \<in> col_key ` set cols) idx)
                 (filter (\<lambda>c. con_key c \<in> col_key ` set cols) cons)
                 (filter (\<lambda>p. pol_key p \<in> col_key ` set cols) rls)),
            d_note = utf16 ''Use sbsh_get_table_doc for detailed column info''\<rparr>"
    using assms(1,2,3) by (subst introspect_ok [of cfg ?eng arg cols]) simp_all
  then have o: "fst (sbsh_introspect_schema cfg ?eng arg) = Inr ?out"
    using build_map_without_orphans [of cols idx cons rls] by simp
  show ?thesis
    apply (rule exI [of _ ?out])
    apply (intro conjI)
    subgoal by (rule r)
    subgoal using d by (simp only: keys)
    subgoal using s by (simp only: keys)
    subgoal by (rule c)
    subgoal by (rule o)
    done
qed

theorem digest_tables_witness:
  "\<exists>out. fst (sbsh_introspect_schema default_config users_engine (SchemasArray [utf16 ''public''])) = Inr out
     \<and> set (map entry_key (digest out)) = {utf16 ''public.users''} \<and> table_count out = 1"
proof -
  have k: "col_key ` set users_columns = {utf16 ''public.users''}"
    by (simp add: users_columns_def col_key_def table_key_def utf16_def)
  from digest_tables [OF users_engine_answers]
  show ?thesis
    by (auto simp: k)
qed

text \<open>
  C6. An entry of the digest renders each column of its table, in the order of the columns
  result, as name, a colon and type, followed by \<open>!\<close> exactly when the column is not
  nullable; idx_count and cons_count are the lengths of the index and constraint collections
  of the entry, which hold the rows of these results with the key of the entry, and rls
  tells whether the entry has a policy.
\<close>

theorem digest_rendering:
  assumes "utf16 ''database'' \<in> FEATURES cfg" "connect eng = None"
    "digest_columns eng (effective_schemas arg) = Inr cols"
    "digest_indexes eng (effective_schemas arg) = Inr idx"
    "digest_constraints eng (effective_schemas arg) = Inr cons"
    "digest_policies eng (effective_schemas arg) = Inr rls"
  shows "\<exists>out. fst (sbsh_introspect_schema cfg eng arg) = Inr out
     \<and> digest out = map (render_entry \<circ> snd) (build_map cols idx cons rls)
     \<and> (\<forall>d \<in> set (digest out).
          d_cols d = map (\<lambda>r. column_name r @ utf16 '':'' @ data_type r
                            @ (if is_nullable r = utf16 ''YES'' then [] else utf16 ''!''))
                       (filter (\<lambda>r. col_key r = entry_key d) cols)
          \<and> idx_count d = length (filter (\<lambda>i. idx_key i = entry_key d) idx)
          \<and> cons_count d = length (filter (\<lambda>c. con_key c = entry_key d) cons)
          \<and> d_rls d = (0 < length (filter (\<lambda>p. pol_key p = entry_key d) rls)))
     \<and> d_cols (render_entry t) = map render_column (t_columns t)
     \<and> render_column c = col_name c @ utf16 '':'' @ col_type c @ (if nullable c then [] else utf16 ''!'')
     \<and> idx_count (render_entry t) = length (t_indexes t)
     \<and> cons_count (render_entry t) = length (t_constraints t)
     \<and> d_rls (render_entry t) = (length (t_rls t) > 0)"
proof -
  let ?bm = "build_map cols idx cons rls"
  let ?out = "\<lparr>digest = map (render_entry \<circ> snd) ?bm, table_count = length ?bm,
      d_note = utf16 ''Use sbsh_get_table_doc for detailed column info''\<rparr>"
  have r: "fst (sbsh_introspect_schema cfg eng arg) = Inr ?out"
    by (simp add: introspect_ok [OF assms])
  have rc: "render_column \<circ> column_of =
      (\<lambda>r. column_name r @ utf16 '':'' @ data_type r
              @ (if is_nullable r = utf16 ''YES'' then [] else utf16 ''!''))"
    by (rule ext) (simp add: render_column_def column_of_def utf16_def)
  have e: "d_cols d = map (\<lambda>r. column_name r @ utf16 '':'' @ data_type r
                            @ (if is_nullable r = utf16 ''YES'' then [] else utf16 ''!''))
                       (filter (\<lambda>r. col_key r = entry_key d) cols)
          \<and> idx_count d = length (filter (\<lambda>i. idx_key i = entry_key d) idx)
          \<and> cons_count d = length (filter (\<lambda>c. con_key c = entry_key d) cons)
          \<and> d_rls d = (0 < length (filter (\<lambda>p. pol_key p = entry_key d) rls))"
    if "d \<in> set (digest ?out)" for d
  proof -
    from that have m: "d \<in> set (map (render_entry \<circ> snd) ?bm)" by simp
    show ?thesis
      using digest_entry_content(2-5) [OF m] unfolding rc by blast
  qed
  have t: "d_cols (render_entry t) = map render_column (t_columns t)
     \<and> render_column c = col_name c @ utf16 '':'' @ col_type c @ (if nullable c then [] else utf16 ''!'')
     \<and> idx_count (render_entry t) = length (t_indexes t)
     \<and> cons_count (render_entry t) = length (t_constraints t)
     \<and> d_rls (render_entry t) = (length (t_rls t) > 0)"
    by (simp add: render_entry_def render_column_def utf16_def)
  have "fst (sbsh_introspect_schema cfg eng arg) = Inr ?out
     \<and> digest ?out = map (render_entry \<circ> snd) (build_map cols idx cons rls)
     \<and> (\<forall>d \<in> set (digest ?out).
          d_cols d = map (\<lambda>r. column_name r @ utf16 '':'' @ data_type r
                            @ (if is_nullable r = utf16 ''YES'' then [] else utf16 ''!''))
                       (filter (\<lambda>r. col_key r = entry_key d) cols)
          \<and> idx_count d = length (filter (\<lambda>i. idx_key i = entry_key d) idx)
          \<and> cons_count d = length (filter (\<lambda>c. con_key c = entry_key d) cons)
          \<and> d_rls d = (0 < length (filter (\<lambda>p. pol_key p = entry_key d) rls)))"
    using r e by simp
  with t show ?thesis by blast
qed

theorem digest_rendering_witness:
  "\<exists>out. fst (sbsh_introspect_schema default_config users_engine (SchemasArray [utf16 ''public''])) = Inr out
     \<and> digest out =
        [\<lparr>d_schema = utf16 ''public'', d_table = utf16 ''users'',
          d_cols = [utf16 ''id:uuid!'', utf16 ''email:text''],
          idx_count = 0, cons_count = 1, d_rls = True\<rparr>]"
proof -
  from digest_rendering [OF users_engine_answers]
  obtain out where
    "fst (sbsh_introspect_schema default_config users_engine (SchemasArray [utf16 ''public''])) = Inr out"
    "digest out = map (render_entry \<circ> snd) (build_map users_columns [] users_constraints users_policies)"
    by blast
  moreover have "map (render_entry \<circ> snd) (build_map users_columns [] users_constraints users_policies) =
      [\<lparr>d_schema = utf16 ''public'', d_table = utf16 ''users'',
        d_cols = [utf16 ''id:uuid!'', utf16 ''email:text''],
        idx_count = 0, cons_count = 1, d_rls = True\<rparr>]"
    unfolding users_map by (simp add: render_entry_def render_column_def utf16_def)
  ultimately show ?thesis by simp
qed


lemma build_map_no_columns: "build_map [] idx cons rls = []"
  using keys_build_map [of "[]" idx cons rls] by simp

lemma introspect_default:
  "(\<forall>ss. arg \<noteq> SchemasArray ss) \<Longrightarrow>
     sbsh_introspect_schema cfg eng arg = sbsh_introspect_schema cfg eng (SchemasArray [utf16 ''public''])"
proof -
  assume "\<forall>ss. arg \<noteq> SchemasArray ss"
  then have eq: "effective_schemas arg = effective_schemas (SchemasArray [utf16 ''public''])"
    by (cases arg) simp_all
  show ?thesis
    unfolding sbsh_introspect_schema_def eq by (rule refl)
qed

lemma introspect_first_query:
  assumes "utf16 ''database'' \<in> FEATURES cfg" "connect eng = None"
  shows "take 2 (snd (sbsh_introspect_schema cfg eng arg)) =
     [Connect, Issue (DigestColumns (effective_schemas arg))]"
  using assms by (simp add: sbsh_introspect_schema_def Let_def split: sum.splits)

lemma effective_schemas_default:
  "(\<forall>ss. arg \<noteq> SchemasArray ss) \<Longrightarrow> effective_schemas arg = [utf16 ''public'']"
  by (cases arg) simp_all

text \<open>
  C10. A schemas argument that is not an array (absent, null, a string, a number) is
  replaced by the default list with public alone: with the tool enabled and a connection,
  the first statement issued is the columns statement scoped to public, and when the engine
  answers, all four statements are scoped to public and the digest is built from their
  results. An empty array is kept: the statements are issued with the empty list, and with
  an engine that returns only columns of the requested schemas the result is a digest
  without entries and table_count 0, not an error and not the default.
\<close>

theorem schemas_argument:
  "effective_schemas SchemasAbsent = [utf16 ''public'']
   \<and> effective_schemas SchemasNull = [utf16 ''public'']
   \<and> effective_schemas (SchemasString s) = [utf16 ''public'']
   \<and> effective_schemas (SchemasNumber n) = [utf16 ''public'']
   \<and> ((\<forall>ss. arg \<noteq> SchemasArray ss) \<longrightarrow>
        sbsh_introspect_schema cfg eng arg =
          sbsh_introspect_schema cfg eng (SchemasArray [utf16 ''public'']))
   \<and> effective_schemas (SchemasArray []) = []
   \<and> (utf16 ''database'' \<in> FEATURES cfg \<and> connect eng' = None
        \<and> digest_columns eng' [] = Inr cols
        \<and> set (map table_schema cols) \<subseteq> set (effective_schemas (SchemasArray []))
        \<and> digest_indexes eng' [] = Inr idx
        \<and> digest_constraints eng' [] = Inr cons
        \<and> digest_policies eng' [] = Inr rls \<longrightarrow>
      sbsh_introspect_schema cfg eng' (SchemasArray []) =
        (Inr \<lparr>digest = [], table_count = 0,
              d_note = utf16 ''Use sbsh_get_table_doc for detailed column info''\<rparr>,
         [Connect, Issue (DigestColumns []), Issue (DigestIndexes []),
          Issue (DigestConstraints []), Issue (DigestPolicies []), Release]))
   \<and> ((\<forall>ss. arg \<noteq> SchemasArray ss) \<and> utf16 ''database'' \<in> FEATURES cfg \<and> connect eng = None \<longrightarrow>
        take 2 (snd (sbsh_introspect_schema cfg eng arg)) =
          [Connect, Issue (DigestColumns [utf16 ''public''])])
   \<and> ((\<forall>ss. arg \<noteq> SchemasArray ss) \<and> utf16 ''database'' \<in> FEATURES cfg \<and> connect eng = None
        \<and> digest_columns eng [utf16 ''public''] = Inr pcols
        \<and> digest_indexes eng [utf16 ''public''] = Inr pidx
        \<and> digest_constraints eng [utf16 ''public''] = Inr pcons
        \<and> digest_policies eng [utf16 ''public''] = Inr prls \<longrightarrow>
      sbsh_introspect_schema cfg eng arg =
        (Inr \<lparr>digest = map (render_entry \<circ> snd) (build_map pcols pidx pcons prls),
              table_count = length (build_map pcols pidx pcons prls),
              d_note = utf16 ''Use sbsh_get_table_doc for detailed column info''\<rparr>,
         [Connect, Issue (DigestColumns [utf16 ''public'']),
          Issue (DigestIndexes [utf16 ''public'']),
          Issue (DigestConstraints [utf16 ''public'']),
          Issue (DigestPolicies [utf16 ''public'']), Release]))
   \<and> (utf16 ''database'' \<in> FEATURES cfg \<and> connect eng' = None \<longrightarrow>
        take 2 (snd (sbsh_introspect_schema cfg eng' (SchemasArray []))) =
          [Connect, Issue (DigestColumns [])])"
proof -
  have e: "sbsh_introspect_schema cfg eng' (SchemasArray []) =
        (Inr \<lparr>digest = [], table_count = 0,
              d_note = utf16 ''Use sbsh_get_table_doc for detailed column info''\<rparr>,
         [Connect, Issue (DigestColumns []), Issue (DigestIndexes []),
          Issue (DigestConstraints []), Issue (DigestPolicies []), Release])"
    if h: "utf16 ''database'' \<in> FEATURES cfg" "connect eng' = None"
      "digest_columns eng' [] = Inr cols"
      "set (map table_schema cols) \<subseteq> set (effective_schemas (SchemasArray []))"
      "digest_indexes eng' [] = Inr idx" "digest_constraints eng' [] = Inr cons"
      "digest_policies eng' [] = Inr rls"
  proof -
    from h(4) have "cols = []" by simp
    then show ?thesis
      using introspect_ok [of cfg eng' "SchemasArray []" cols idx cons rls] h
      by (simp add: build_map_no_columns)
  qed
  have f: "take 2 (snd (sbsh_introspect_schema cfg eng arg)) =
          [Connect, Issue (DigestColumns [utf16 ''public''])]"
    if "\<forall>ss. arg \<noteq> SchemasArray ss" "utf16 ''database'' \<in> FEATURES cfg" "connect eng = None"
    using introspect_first_query [OF that(2,3), of arg] effective_schemas_default [OF that(1)]
    by simp
  have g: "sbsh_introspect_schema cfg eng arg =
        (Inr \<lparr>digest = map (render_entry \<circ> snd) (build_map pcols pidx pcons prls),
              table_count = length (build_map pcols pidx pcons prls),
              d_note = utf16 ''Use sbsh_get_table_doc for detailed column info''\<rparr>,
         [Connect, Issue (DigestColumns [utf16 ''public'']),
          Issue (DigestIndexes [utf16 ''public'']),
          Issue (DigestConstraints [utf16 ''public'']),
          Issue (DigestPolicies [utf16 ''public'']), Release])"
    if "\<forall>ss. arg \<noteq> SchemasArray ss" "utf16 ''database'' \<in> FEATURES cfg" "connect eng = None"
      "digest_columns eng [utf16 ''public''] = Inr pcols"
      "digest_indexes eng [utf16 ''public''] = Inr pidx"
      "digest_constraints eng [utf16 ''public''] = Inr pcons"
      "digest_policies eng [utf16 ''public''] = Inr prls"
    using introspect_ok [of cfg eng arg pcols pidx pcons prls] that(2-7)
      effective_schemas_default [OF that(1)]
    by simp
  have k: "take 2 (snd (sbsh_introspect_schema cfg eng' (SchemasArray []))) =
          [Connect, Issue (DigestColumns [])]"
    if "utf16 ''database'' \<in> FEATURES cfg" "connect eng' = None"
    using introspect_first_query [OF that, of "SchemasArray []"] by simp
  show ?thesis
    apply (intro conjI impI)
    subgoal by simp
    subgoal by simp
    subgoal by simp
    subgoal by simp
    subgoal by (rule introspect_default)
    subgoal by simp
    subgoal by (rule e) simp_all
    subgoal by (rule f) simp_all
    subgoal by (rule g) simp_all
    subgoal by (rule k) simp_all
    done
qed

theorem schemas_argument_witness:
  "sbsh_introspect_schema default_config users_engine (SchemasArray []) =
     (Inr \<lparr>digest = [], table_count = 0,
           d_note = utf16 ''Use sbsh_get_table_doc for detailed column info''\<rparr>,
      [Connect, Issue (DigestColumns []), Issue (DigestIndexes []),
       Issue (DigestConstraints []), Issue (DigestPolicies []), Release])
   \<and> sbsh_introspect_schema default_config users_engine SchemasNull =
     (Inr \<lparr>digest = [\<lparr>d_schema = utf16 ''public'', d_table = utf16 ''users'',
                       d_cols = [utf16 ''id:uuid!'', utf16 ''email:text''],
                       idx_count = 0, cons_count = 1, d_rls = True\<rparr>],
           table_count = 1,
           d_note = utf16 ''Use sbsh_get_table_doc for detailed column info''\<rparr>,
      [Connect, Issue (DigestColumns [utf16 ''public'']),
       Issue (DigestIndexes [utf16 ''public'']),
       Issue (DigestConstraints [utf16 ''public'']),
       Issue (DigestPolicies [utf16 ''public'']), Release])"
proof -
  have a: "utf16 ''database'' \<in> FEATURES default_config \<and> connect users_engine = None
      \<and> digest_columns users_engine [] = Inr []
      \<and> set (map table_schema []) \<subseteq> set (effective_schemas (SchemasArray []))
      \<and> digest_indexes users_engine [] = Inr []
      \<and> digest_constraints users_engine [] = Inr []
      \<and> digest_policies users_engine [] = Inr []"
    by (simp add: default_config_def users_engine_def sample_engine_def)
  have b: "(\<forall>ss. SchemasNull \<noteq> SchemasArray ss) \<and> utf16 ''database'' \<in> FEATURES default_config
      \<and> connect users_engine = None
      \<and> digest_columns users_engine [utf16 ''public''] = Inr users_columns
      \<and> digest_indexes users_engine [utf16 ''public''] = Inr []
      \<and> digest_constraints users_engine [utf16 ''public''] = Inr users_constraints
      \<and> digest_policies users_engine [utf16 ''public''] = Inr users_policies"
    using users_engine_answers by simp
  have c: "map (render_entry \<circ> snd) (build_map users_columns [] users_constraints users_policies) =
      [\<lparr>d_schema = utf16 ''public'', d_table = utf16 ''users'',
        d_cols = [utf16 ''id:uuid!'', utf16 ''email:text''],
        idx_count = 0, cons_count = 1, d_rls = True\<rparr>]"
    "length (build_map users_columns [] users_constraints users_policies) = 1"
    unfolding users_map by (simp_all add: render_entry_def render_column_def utf16_def)
  from schemas_argument [of undefined 0 SchemasNull default_config users_engine users_engine
        "[]" "[]" "[]" "[]" users_columns "[]" users_constraints users_policies]
  have "sbsh_introspect_schema default_config users_engine (SchemasArray []) =
     (Inr \<lparr>digest = [], table_count = 0,
           d_note = utf16 ''Use sbsh_get_table_doc for detailed column info''\<rparr>,
      [Connect, Issue (DigestColumns []), Issue (DigestIndexes []),
       Issue (DigestConstraints []), Issue (DigestPolicies []), Release])"
    and "sbsh_introspect_schema default_config users_engine SchemasNull =
        (Inr \<lparr>digest = map (render_entry \<circ> snd) (build_map users_columns [] users_constraints users_policies),
              table_count = length (build_map users_columns [] users_constraints users_policies),
              d_note = utf16 ''Use sbsh_get_table_doc for detailed column info''\<rparr>,
         [Connect, Issue (DigestColumns [utf16 ''public'']),
          Issue (DigestIndexes [utf16 ''public'']),
          Issue (DigestConstraints [utf16 ''public'']),
          Issue (DigestPolicies [utf16 ''public'']), Release])"
    using a b by blast+
  then show ?thesis by (simp only: c)
qed

end
